theory Spec2Isabelle
  imports Main "HOL-Library.Sublist"
begin

section \<open>Python strings\<close>

text \<open>
  A Python \<open>str\<close> is modelled as a \<open>string\<close> whose characters are the code points
  below 256. On these, \<open>str.lower\<close> maps one character to one character, so the offsets
  computed on \<open>content.lower()\<close> are offsets of \<open>content\<close> as well.
\<close>

definition lower_char :: "char \<Rightarrow> char" where
  "lower_char c =
     (let n = (of_char c :: nat)
      in if (65 \<le> n \<and> n \<le> 90) \<or> (192 \<le> n \<and> n \<le> 222 \<and> n \<noteq> 215)
         then char_of (n + 32) else c)"

definition lower :: "string \<Rightarrow> string" where
  "lower s = map lower_char s"

definition is_space :: "char \<Rightarrow> bool" where
  \<comment> \<open>\<open>str.isspace\<close> on the code points below 256\<close>
  "is_space c =
     (let n = (of_char c :: nat)
      in (9 \<le> n \<and> n \<le> 13) \<or> (28 \<le> n \<and> n \<le> 32) \<or> n = 133 \<or> n = 160)"

definition strip :: "string \<Rightarrow> string" where
  "strip s = rev (dropWhile is_space (rev (dropWhile is_space s)))"

text \<open>\<open>s.split()\<close>: the maximal runs of non-whitespace characters, in order.\<close>

fun split_acc :: "string \<Rightarrow> string \<Rightarrow> string list" where
  "split_acc w [] = (if w = [] then [] else [w])"
| "split_acc w (c # cs) =
     (if is_space c then (if w = [] then split_acc [] cs else w # split_acc [] cs)
      else split_acc (w @ [c]) cs)"

definition split_ws :: "string \<Rightarrow> string list" where
  "split_ws s = split_acc [] s"

definition startswith :: "string \<Rightarrow> string \<Rightarrow> bool" where
  "startswith s p = prefix p s"

definition endswith :: "string \<Rightarrow> string \<Rightarrow> bool" where
  "endswith s p = suffix p s"

text \<open>\<open>sub in s\<close> on strings is the contiguous-sublist test.\<close>

definition str_in :: "string \<Rightarrow> string \<Rightarrow> bool" where
  "str_in sub s = sublist sub s"

text \<open>\<open>s.find(sub)\<close>: the lowest offset at which \<open>sub\<close> occurs, \<open>-1\<close> when there is none.\<close>

fun find_from :: "string \<Rightarrow> string \<Rightarrow> nat option" where
  "find_from [] sub = (if sub = [] then Some 0 else None)"
| "find_from (c # cs) sub =
     (if prefix sub (c # cs) then Some 0 else map_option Suc (find_from cs sub))"

definition find_str :: "string \<Rightarrow> string \<Rightarrow> int" where
  "find_str s sub = (case find_from s sub of None \<Rightarrow> - 1 | Some i \<Rightarrow> int i)"

text \<open>\<open>s[a:b]\<close>: a negative bound counts from the end, and both are clipped to the string.\<close>

definition slice_bound :: "nat \<Rightarrow> int \<Rightarrow> nat" where
  "slice_bound n i = (if i < 0 then nat (max 0 (i + int n)) else min (nat i) n)"

definition slice :: "'a list \<Rightarrow> int \<Rightarrow> int \<Rightarrow> 'a list" where
  "slice xs a b =
     (let lo = slice_bound (length xs) a; hi = slice_bound (length xs) b
      in take (hi - lo) (drop lo xs))"

section \<open>JSON values and tool replies\<close>

datatype json =
    JNull
  | JNum int
  | JStr string
  | JArr "json list"
  | JObj "(string \<times> json) list"

text \<open>
  Every tool returns a Python \<open>str\<close>: either a message built by an f-string, or
  \<open>json.dumps(value, indent=2)\<close>. The reply keeps the two apart.
\<close>

datatype reply = Plain string | Dumps json

section \<open>Snippets\<close>

text \<open>
  The four copies of the snippet computation in \<open>search_docs\<close> and \<open>search_github\<close>:
  \<^verbatim>\<open>
    index = content.lower().find(term)
    start = max(0, index - 100)
    end = min(len(content), index + len(term) + 100)
    snippet = content[start:end]
  \<close>
\<close>

definition snippet_start :: "string \<Rightarrow> string \<Rightarrow> int" where
  "snippet_start content term = max 0 (find_str (lower content) term - 100)"

definition snippet_end :: "string \<Rightarrow> string \<Rightarrow> int" where
  "snippet_end content term =
     min (int (length content)) (find_str (lower content) term + int (length term) + 100)"

definition snippet :: "string \<Rightarrow> string \<Rightarrow> string" where
  "snippet content term = slice content (snippet_start content term) (snippet_end content term)"

section \<open>Documents\<close>

text \<open>
  The tree that \<open>BeautifulSoup(html, 'html.parser')\<close> returns: a tag has a name, its
  attributes, the source line of its opening tag and its contents; a \<open>NavigableString\<close>
  is a piece of text. A \<open>SpecialString\<close> is a string of one of the subclasses that
  \<open>get_text\<close> leaves out: a comment, a declaration, the text of a \<open>script\<close> or of a
  \<open>style\<close>. A document is the list of its top-level nodes.
\<close>

datatype node =
    Tag string "(string \<times> string) list" nat "node list"
  | NavigableString string
  | SpecialString string

text \<open>\<open>node.name\<close>: \<open>None\<close> on a string.\<close>

fun node_name :: "node \<Rightarrow> string option" where
  "node_name (Tag n a l cs) = Some n"
| "node_name (NavigableString s) = None"
| "node_name (SpecialString s) = None"

fun sourceline :: "node \<Rightarrow> nat" where
  "sourceline (Tag n a l cs) = l"
| "sourceline (NavigableString s) = 0"
| "sourceline (SpecialString s) = 0"

fun node_contents :: "node \<Rightarrow> node list" where
  "node_contents (Tag n a l cs) = cs"
| "node_contents (NavigableString s) = []"
| "node_contents (SpecialString s) = []"

fun get_attr :: "node \<Rightarrow> string \<Rightarrow> string option" where
  "get_attr (Tag n a l cs) k = map_of a k"
| "get_attr (NavigableString s) k = None"
| "get_attr (SpecialString s) k = None"

text \<open>
  Truth value of a node, as \<open>while current\<close> tests it: a tag is always true, a string is
  true when it is not empty.
\<close>

fun truthy :: "node \<Rightarrow> bool" where
  "truthy (Tag n a l cs) = True"
| "truthy (NavigableString s) = (s \<noteq> [])"
| "truthy (SpecialString s) = (s \<noteq> [])"

text \<open>
  The nodes below a node in document order, each with its path: the positions to follow
  from the top of the document.
\<close>

fun descendants :: "nat list \<Rightarrow> node \<Rightarrow> (nat list \<times> node) list"
  and descendants_list :: "nat list \<Rightarrow> nat \<Rightarrow> node list \<Rightarrow> (nat list \<times> node) list" where
  "descendants p (NavigableString s) = []"
| "descendants p (SpecialString s) = []"
| "descendants p (Tag n a l cs) = descendants_list p 0 cs"
| "descendants_list p i [] = []"
| "descendants_list p i (c # cs) =
     (p @ [i], c) # descendants (p @ [i]) c @ descendants_list p (Suc i) cs"

definition soup_descendants :: "node list \<Rightarrow> (nat list \<times> node) list" where
  "soup_descendants soup = descendants_list [] 0 soup"

text \<open>\<open>soup.find_all(tag)\<close> and \<open>soup.find(tag)\<close>.\<close>

definition find_all :: "string \<Rightarrow> node list \<Rightarrow> (nat list \<times> node) list" where
  "find_all tag soup = filter (\<lambda>(p, n). node_name n = Some tag) (soup_descendants soup)"

definition find_tag :: "string \<Rightarrow> node list \<Rightarrow> (nat list \<times> node) option" where
  "find_tag tag soup = (case find_all tag soup of [] \<Rightarrow> None | x # _ \<Rightarrow> Some x)"

text \<open>
  A \<open>class_\<close> filter: the tag's \<open>class\<close> attribute, as a whole or one of its
  whitespace-separated values, is one of the given classes.
\<close>

definition has_class :: "string list \<Rightarrow> node \<Rightarrow> bool" where
  "has_class cls n =
     (case get_attr n ''class'' of
        None \<Rightarrow> False
      | Some v \<Rightarrow> v \<in> set cls \<or> (\<exists>c \<in> set (split_ws v). c \<in> set cls))"

definition find_tag_class :: "string \<Rightarrow> string list \<Rightarrow> node list \<Rightarrow> (nat list \<times> node) option" where
  "find_tag_class tag cls soup =
     (case filter (\<lambda>(p, n). has_class cls n) (find_all tag soup) of
        [] \<Rightarrow> None | x # _ \<Rightarrow> Some x)"

text \<open>
  The strings below a node that \<open>get_text\<close> joins, in document order, and the three
  uses of \<open>get_text\<close>.
\<close>

fun all_strings :: "node \<Rightarrow> string list" where
  "all_strings (NavigableString s) = [s]"
| "all_strings (SpecialString s) = []"
| "all_strings (Tag n a l cs) = concat (map all_strings cs)"

definition stripped_strings :: "node \<Rightarrow> string list" where
  "stripped_strings n = filter (\<lambda>s. s \<noteq> []) (map strip (all_strings n))"

fun join :: "string \<Rightarrow> string list \<Rightarrow> string" where
  "join sep [] = []"
| "join sep [x] = x"
| "join sep (x # y # ys) = x @ sep @ join sep (y # ys)"

definition get_text :: "node \<Rightarrow> string" where
  \<comment> \<open>\<open>node.get_text()\<close>\<close>
  "get_text n = concat (all_strings n)"

definition get_text_strip :: "node \<Rightarrow> string" where
  \<comment> \<open>\<open>node.get_text(strip=True)\<close>\<close>
  "get_text_strip n = concat (stripped_strings n)"

definition get_text_lines :: "node \<Rightarrow> string" where
  \<comment> \<open>\<open>node.get_text(separator='\n', strip=True)\<close>\<close>
  "get_text_lines n = join [CHR 0x0A] (stripped_strings n)"

definition soup_text_lines :: "node list \<Rightarrow> string" where
  \<comment> \<open>\<open>soup.get_text(separator='\n', strip=True)\<close> on the whole document\<close>
  "soup_text_lines soup = join [CHR 0x0A] (concat (map stripped_strings soup))"

section \<open>The network, the caches and the fetch helpers\<close>

text \<open>
  An exception carries the text that \<open>str(e)\<close> gives. A response has its status code,
  its text, and the exception that \<open>raise_for_status()\<close> raises on it, if any.
\<close>

datatype exn =
    RequestError string
  | HTTPStatusError string
  | ValueError string
  | AttributeError string
  | IndexError string

fun str_exn :: "exn \<Rightarrow> string" where
  "str_exn (RequestError m) = m"
| "str_exn (HTTPStatusError m) = m"
| "str_exn (ValueError m) = m"
| "str_exn (AttributeError m) = m"
| "str_exn (IndexError m) = m"

record response =
  status_code :: nat
  resp_text :: string
  status_error :: "exn option"

text \<open>One entry of a directory listing (\<open>{"name": ..., "path": ...}\<close>).\<close>

record entry =
  entry_name :: string
  entry_path :: string

text \<open>
  One row of GitHub's file explorer as \<open>search_files\<close> reads it: the \<open>aria-label\<close> of
  its \<open>svg\<close> (the outer \<open>None\<close>: no \<open>svg\<close>; the inner one: no label) and the stripped
  text of its \<open>a[data-pjax]\<close> link (\<open>None\<close>: no such link).
\<close>

record row =
  row_svg :: "string option option"
  row_link_text :: "string option"

text \<open>
  What the code takes from outside: \<open>urllib.parse.urljoin\<close>, the HTTP client (its
  answer may depend on how many requests were issued before), the HTML parser, and the
  CSS-selector scraping of GitHub's pages, which no claim is about:
  \<^item> \<open>root_listing\<close>: the files and directories that \<open>get_github_structure\<close> reads off
    the repository's main page;
  \<^item> \<open>box_row_hrefs\<close>: for each \<open>div.Box-row\<close> of a directory page, the \<open>href\<close> of its
    \<open>a[data-pjax]\<close> link (\<open>None\<close> when the row has no such link, the empty string when
    the link has no \<open>href\<close>);
  \<^item> \<open>box_rows\<close>: the same rows as \<open>search_files\<close> reads them;
  \<^item> \<open>dir_listing\<close>: the files (each with its extension) and the directories that
    \<open>process_directory\<close> reads off the page of a directory, only direct children of the
    directory, and the messages of the rows whose reading raised.
\<close>

record env =
  urljoin :: "string \<Rightarrow> string \<Rightarrow> string"
  http_get :: "nat \<Rightarrow> string \<Rightarrow> exn + response"
  parse_html :: "string \<Rightarrow> node list"
  root_listing :: "string \<Rightarrow> entry list \<times> entry list"
  box_row_hrefs :: "string \<Rightarrow> string option list"
  box_rows :: "string \<Rightarrow> row list"
  dir_listing :: "string \<Rightarrow> string \<Rightarrow> (entry \<times> string) list \<times> entry list \<times> string list"

definition DOCS_URL :: string where
  "DOCS_URL = ''https://openai.github.io/openai-agents-python/''"

definition GITHUB_URL :: string where
  "GITHUB_URL = ''https://github.com/openai/openai-agents-python''"

definition RAW_GITHUB_URL :: string where
  "RAW_GITHUB_URL = ''https://raw.githubusercontent.com/openai/openai-agents-python/main/''"

text \<open>
  The module's state: the two caches, and the log of the URLs requested so far (the
  fetch counter of a mocked client).
\<close>

record state =
  doc_cache :: "string \<rightharpoonup> string"
  github_cache :: "string \<rightharpoonup> string"
  requests :: "string list"

definition client_get :: "env \<Rightarrow> state \<Rightarrow> string \<Rightarrow> (exn + response) \<times> state" where
  "client_get env st url =
     (http_get env (length (requests st)) url, st\<lparr>requests := requests st @ [url]\<rparr>)"

text \<open>
  \<open>soup.find('article') or soup.find('main') or soup.find('div', class_='markdown-body')\<close>
\<close>

definition main_content :: "node list \<Rightarrow> node option" where
  "main_content soup =
     (case find_tag ''article'' soup of
        Some (p, n) \<Rightarrow> Some n
      | None \<Rightarrow>
          (case find_tag ''main'' soup of
             Some (p, n) \<Rightarrow> Some n
           | None \<Rightarrow> map_option snd (find_tag_class ''div'' [''markdown-body''] soup)))"

text \<open>
  The readable text of a page: the text of its main content, or of the whole page when
  it has none.
\<close>

definition page_text :: "env \<Rightarrow> string \<Rightarrow> string" where
  "page_text env html =
     (let soup = parse_html env html
      in case main_content soup of
           Some m \<Rightarrow> get_text_lines m
         | None \<Rightarrow> soup_text_lines soup)"

definition fetch_doc_page :: "env \<Rightarrow> state \<Rightarrow> string \<Rightarrow> (exn + string) \<times> state" where
  "fetch_doc_page env st url =
     (case doc_cache st url of
        Some cached \<Rightarrow> (Inr cached, st)
      | None \<Rightarrow>
          (let full_url = (if startswith url ''http'' then url else urljoin env DOCS_URL url);
               (r, st1) = client_get env st full_url
           in case r of
                Inl e \<Rightarrow> (Inl e, st1)
              | Inr response \<Rightarrow>
                  (case status_error response of
                     Some e \<Rightarrow> (Inl e, st1)
                   | None \<Rightarrow>
                       (let content = page_text env (resp_text response)
                        in (Inr content, st1\<lparr>doc_cache := (doc_cache st1)(url \<mapsto> content)\<rparr>)))))"

definition fetch_github_file :: "env \<Rightarrow> state \<Rightarrow> string \<Rightarrow> (exn + string) \<times> state" where
  "fetch_github_file env st path =
     (case github_cache st path of
        Some cached \<Rightarrow> (Inr cached, st)
      | None \<Rightarrow>
          (let url = urljoin env RAW_GITHUB_URL path;
               (r, st1) = client_get env st url
           in case r of
                Inl e \<Rightarrow> (Inl e, st1)
              | Inr response \<Rightarrow>
                  (case status_error response of
                     Some e \<Rightarrow> (Inl e, st1)
                   | None \<Rightarrow>
                       (let content = resp_text response
                        in (Inr content,
                            st1\<lparr>github_cache := (github_cache st1)(path \<mapsto> content)\<rparr>)))))"

section \<open>Keyword search\<close>

definition q :: string where
  \<comment> \<open>the apostrophe of the messages\<close>
  "q = [CHR 0x27]"

text \<open>\<open>s.replace(old, new)\<close>: every occurrence, left to right, without overlap.\<close>

function replace :: "string \<Rightarrow> string \<Rightarrow> string \<Rightarrow> string" where
  "replace s old new =
     (if old = [] then new @ concat (map (\<lambda>c. c # new) s)
      else if s = [] then []
      else if prefix old s then new @ replace (drop (length old) s) old new
      else hd s # replace (tl s) old new)"
  by pat_completeness auto
termination
  by (relation "measure (\<lambda>(s, old, new). length s)") auto

declare replace.simps [simp del]

subsection \<open>\<open>search_docs\<close>\<close>

text \<open>
  The block that \<open>search_docs\<close> runs on the main page and on every linked page:
  \<^verbatim>\<open>
    if any(term in content.lower() for term in query_terms):
        for term in query_terms:
            if term in content.lower():
                ... snippet ...
                results.append({"url": ..., "title": ..., "snippet": f"...{snippet}..."})
                break
  \<close>
\<close>

definition docs_result :: "string \<Rightarrow> string \<Rightarrow> string \<Rightarrow> string \<Rightarrow> json" where
  "docs_result url title content term =
     JObj [(''url'', JStr url), (''title'', JStr title),
           (''snippet'', JStr (''...'' @ snippet content term @ ''...''))]"

fun docs_term_loop :: "string \<Rightarrow> string \<Rightarrow> string \<Rightarrow> string list \<Rightarrow> json list \<Rightarrow> json list" where
  "docs_term_loop url title content [] results = results"
| "docs_term_loop url title content (term # terms) results =
     (if str_in term (lower content) then results @ [docs_result url title content term]
      else docs_term_loop url title content terms results)"

definition docs_search_page ::
  "string \<Rightarrow> string \<Rightarrow> string \<Rightarrow> string list \<Rightarrow> json list \<Rightarrow> json list" where
  "docs_search_page url title content query_terms results =
     (if list_ex (\<lambda>term. str_in term (lower content)) query_terms
      then docs_term_loop url title content query_terms results
      else results)"

text \<open>
  The links of the main page: the \<open>href\<close> of every \<open>a\<close> that has one and does not start
  with \<open>http://\<close>, \<open>https://\<close>, \<open>#\<close> or \<open>javascript:\<close>.
\<close>

definition doc_links :: "node list \<Rightarrow> string list" where
  "doc_links soup =
     filter (\<lambda>href. \<not> (startswith href ''http://'' \<or> startswith href ''https://''
                        \<or> startswith href ''#'' \<or> startswith href ''javascript:''))
       (concat (map (\<lambda>(p, a). case get_attr a ''href'' of Some h \<Rightarrow> [h] | None \<Rightarrow> [])
                  (find_all ''a'' soup)))"

text \<open>The loop over \<open>links[:20]\<close>; a page whose fetch raises is skipped.\<close>

fun docs_links_loop ::
  "env \<Rightarrow> string list \<Rightarrow> string list \<Rightarrow> json list \<times> state \<Rightarrow> json list \<times> state" where
  "docs_links_loop env query_terms [] (results, st) = (results, st)"
| "docs_links_loop env query_terms (link # links) (results, st) =
     (let page_url = urljoin env DOCS_URL link
      in case fetch_doc_page env st page_url of
           (Inl e, st1) \<Rightarrow> docs_links_loop env query_terms links (results, st1)
         | (Inr page_content, st1) \<Rightarrow>
             docs_links_loop env query_terms links
               (docs_search_page page_url link page_content query_terms results, st1))"

definition search_docs :: "env \<Rightarrow> state \<Rightarrow> string \<Rightarrow> reply \<times> state" where
  "search_docs env st query0 =
     (let query = lower (strip query0)
      in if query = [] then (Plain ''Please provide a search query.'', st)
         else
           (let query_terms = split_ws query;
                (r, st1) = fetch_doc_page env st DOCS_URL
            in case r of
                 Inl e \<Rightarrow> (Plain (''Error searching documentation: '' @ str_exn e), st1)
               | Inr content \<Rightarrow>
                   (let soup = parse_html env content;
                        links = doc_links soup;
                        results = docs_search_page DOCS_URL ''Main Page'' content query_terms [];
                        (results', st2) =
                          docs_links_loop env query_terms (take 20 links) (results, st1)
                    in if results' = []
                       then (Plain (''No results found for your query: '' @ q @ query @ q
                               @ ''. Try a different search term or check the documentation index.''),
                             st2)
                       else (Dumps (JArr results'), st2))))"

text \<open>
  The corpus of a call of \<open>search_docs\<close>: the documents that it searches, each with the
  URL and the title of its result. They are the main page and, for every one of the
  first 20 links whose fetch returns, the page of the link: a page linked twice is
  searched twice.
\<close>

fun docs_links_visited ::
  "env \<Rightarrow> string list \<Rightarrow> state \<Rightarrow> (string \<times> string \<times> string) list" where
  "docs_links_visited env [] st = []"
| "docs_links_visited env (link # links) st =
     (case fetch_doc_page env st (urljoin env DOCS_URL link) of
        (Inl e, st1) \<Rightarrow> docs_links_visited env links st1
      | (Inr page_content, st1) \<Rightarrow>
          (urljoin env DOCS_URL link, link, page_content) # docs_links_visited env links st1)"

definition search_docs_corpus :: "env \<Rightarrow> state \<Rightarrow> (string \<times> string \<times> string) list" where
  "search_docs_corpus env st =
     (case fetch_doc_page env st DOCS_URL of
        (Inl e, st1) \<Rightarrow> []
      | (Inr content, st1) \<Rightarrow>
          (DOCS_URL, ''Main Page'', content)
          # docs_links_visited env (take 20 (doc_links (parse_html env content))) st1)"

subsection \<open>\<open>search_github\<close>\<close>

record gh_structure =
  gh_error :: "string option"
  gh_files :: "entry list"
  gh_directories :: "entry list"

definition default_dirs :: "entry list" where
  "default_dirs =
     map (\<lambda>d. \<lparr>entry_name = d, entry_path = d\<rparr>) [''examples'', ''src'', ''docs'', ''tests'']"

definition get_github_structure :: "env \<Rightarrow> state \<Rightarrow> gh_structure \<times> state" where
  "get_github_structure env st =
     (let (r, st1) = client_get env st (GITHUB_URL @ ''/tree/main'')
      in case r of
           Inl e \<Rightarrow> (\<lparr>gh_error = Some (str_exn e), gh_files = [], gh_directories = []\<rparr>, st1)
         | Inr response \<Rightarrow>
             (case status_error response of
                Some e \<Rightarrow>
                  (\<lparr>gh_error = Some (str_exn e), gh_files = [], gh_directories = []\<rparr>, st1)
              | None \<Rightarrow>
                  (let (files, dirs) = root_listing env (resp_text response)
                   in if files = [] \<and> dirs = []
                      then (\<lparr>gh_error = None, gh_files = [], gh_directories = default_dirs\<rparr>, st1)
                      else (\<lparr>gh_error = None, gh_files = files, gh_directories = dirs\<rparr>, st1))))"

definition github_result :: "string \<Rightarrow> string \<Rightarrow> string \<Rightarrow> json" where
  "github_result path content term =
     JObj [(''path'', JStr path), (''url'', JStr (GITHUB_URL @ ''/blob/main/'' @ path)),
           (''snippet'', JStr (''...'' @ snippet content term @ ''...'')),
           (''matched_term'', JStr term)]"

fun github_term_loop :: "string \<Rightarrow> string \<Rightarrow> string list \<Rightarrow> json list \<Rightarrow> json list" where
  "github_term_loop path content [] results = results"
| "github_term_loop path content (term # terms) results =
     (if str_in term (lower content) then results @ [github_result path content term]
      else github_term_loop path content terms results)"

definition github_search_file :: "string \<Rightarrow> string \<Rightarrow> string list \<Rightarrow> json list \<Rightarrow> json list" where
  "github_search_file path content query_terms results =
     (if list_ex (\<lambda>term. str_in term (lower content)) query_terms
      then github_term_loop path content query_terms results
      else results)"

text \<open>The messages appended to \<open>search_errors\<close>.\<close>

definition root_file_error :: "entry \<Rightarrow> exn \<Rightarrow> string" where
  "root_file_error file e =
     ''Error checking root file '' @ entry_name file @ '': '' @ str_exn e"

definition file_error :: "string \<Rightarrow> exn \<Rightarrow> string" where
  "file_error file_path e = ''Error processing file '' @ file_path @ '': '' @ str_exn e"

definition directory_error :: "string \<Rightarrow> exn \<Rightarrow> string" where
  "directory_error dir_path e = ''Error searching directory '' @ dir_path @ '': '' @ str_exn e"

definition blob_prefix :: string where
  "blob_prefix = ''/openai/openai-agents-python/blob/main/''"

text \<open>The loop over the files of the root directory.\<close>

fun github_root_loop ::
  "env \<Rightarrow> string list \<Rightarrow> entry list \<Rightarrow> json list \<times> string list \<times> state
     \<Rightarrow> json list \<times> string list \<times> state" where
  "github_root_loop env query_terms [] (results, search_errors, st) = (results, search_errors, st)"
| "github_root_loop env query_terms (file # files) (results, search_errors, st) =
     (let path = entry_path file
      in if path = [] then github_root_loop env query_terms files (results, search_errors, st)
         else
           (case fetch_github_file env st path of
              (Inl e, st1) \<Rightarrow>
                github_root_loop env query_terms files
                  (results, search_errors @ [root_file_error file e], st1)
            | (Inr file_content, st1) \<Rightarrow>
                github_root_loop env query_terms files
                  (github_search_file path file_content query_terms results,
                   search_errors, st1)))"

text \<open>The loop of \<open>search_directory\<close> over the rows of a directory page.\<close>

definition is_text_file :: "string \<Rightarrow> bool" where
  \<comment> \<open>\<open>file_path.endswith((".py", ".md"))\<close>\<close>
  "is_text_file file_path = (endswith file_path ''.py'' \<or> endswith file_path ''.md'')"

fun github_rows_loop ::
  "env \<Rightarrow> string list \<Rightarrow> string option list \<Rightarrow> json list \<times> string list \<times> state
     \<Rightarrow> json list \<times> string list \<times> state" where
  "github_rows_loop env query_terms [] (dir_results, search_errors, st) =
     (dir_results, search_errors, st)"
| "github_rows_loop env query_terms (None # items) (dir_results, search_errors, st) =
     github_rows_loop env query_terms items (dir_results, search_errors, st)"
| "github_rows_loop env query_terms (Some href # items) (dir_results, search_errors, st) =
     (let file_path = replace href blob_prefix []
      in if is_text_file file_path
         then
           (case fetch_github_file env st file_path of
              (Inl e, st1) \<Rightarrow>
                github_rows_loop env query_terms items
                  (dir_results, search_errors @ [file_error file_path e], st1)
            | (Inr file_content, st1) \<Rightarrow>
                github_rows_loop env query_terms items
                  (github_search_file file_path file_content query_terms dir_results,
                   search_errors, st1))
         else github_rows_loop env query_terms items (dir_results, search_errors, st))"

definition github_search_directory ::
  "env \<Rightarrow> string list \<Rightarrow> string \<Rightarrow> string list \<times> state \<Rightarrow> json list \<times> string list \<times> state" where
  "github_search_directory env query_terms dir_path = (\<lambda>(search_errors, st).
     (let (r, st1) = client_get env st (GITHUB_URL @ ''/tree/main/'' @ dir_path);
          failed = (\<lambda>e. ([], search_errors @ [directory_error dir_path e], st1))
      in case r of
           Inl e \<Rightarrow> failed e
         | Inr response \<Rightarrow>
             if status_code response = 404
             then ([], search_errors @ [''Directory not found: '' @ dir_path], st1)
             else (case status_error response of
                     Some e \<Rightarrow> failed e
                   | None \<Rightarrow>
                       github_rows_loop env query_terms (box_row_hrefs env (resp_text response))
                         ([], search_errors, st1))))"

text \<open>
  \<open>asyncio.gather\<close> runs the searches of the key directories as tasks of one event
  loop and returns their results in the order of the directories. The model runs them
  one after the other, which is one of the schedules; the others differ in the order of
  the requests and of the recorded errors.
\<close>

definition github_key_dirs :: "string list" where
  "github_key_dirs = [''openai'', ''examples'', ''docs'', ''src'', ''src/agents'', ''tests'']"

fun github_gather ::
  "env \<Rightarrow> string list \<Rightarrow> string list \<Rightarrow> json list \<times> string list \<times> state
     \<Rightarrow> json list \<times> string list \<times> state" where
  "github_gather env query_terms [] (results, search_errors, st) = (results, search_errors, st)"
| "github_gather env query_terms (dir_name # dirs) (results, search_errors, st) =
     (let (dir_results, search_errors1, st1) =
            github_search_directory env query_terms dir_name (search_errors, st)
      in github_gather env query_terms dirs (results @ dir_results, search_errors1, st1))"

definition github_debug_info :: "string \<Rightarrow> string list \<Rightarrow> string list \<Rightarrow> json" where
  "github_debug_info query query_terms search_errors =
     JObj [(''search_query'', JStr query),
           (''search_terms'', JArr (map JStr query_terms)),
           (''directories_searched'', JArr (map JStr github_key_dirs)),
           (''errors'', if search_errors = [] then JNull else JArr (map JStr search_errors))]"

definition search_github :: "env \<Rightarrow> state \<Rightarrow> string \<Rightarrow> reply \<times> state" where
  "search_github env st query0 =
     (let query = lower (strip query0)
      in if query = [] then (Plain ''Please provide a search query.'', st)
         else
           (let query_terms = split_ws query;
                (structure0, st1) = get_github_structure env st;
                (search_errors0, structure) =
                  (case gh_error structure0 of
                     Some e \<Rightarrow>
                       ([''Error getting repository structure: '' @ e],
                        \<lparr>gh_error = None, gh_files = [], gh_directories = []\<rparr>)
                   | None \<Rightarrow> ([], structure0));
                (results1, search_errors1, st2) =
                  github_root_loop env query_terms (gh_files structure) ([], search_errors0, st1);
                (results, search_errors, st3) =
                  github_gather env query_terms github_key_dirs (results1, search_errors1, st2);
                debug_info = github_debug_info query query_terms search_errors
            in if results = []
               then (Dumps (JObj [(''error'',
                                   JStr (''No results found in the GitHub repository for query: ''
                                         @ q @ query @ q @ ''. Try different search terms.'')),
                                  (''debug_info'', debug_info)]),
                     st3)
               else (Dumps (JObj [(''results'', JArr results), (''debug_info'', debug_info)]), st3)))"

text \<open>
  The corpus of a call of \<open>search_github\<close>: the files that it searches, each with its
  path. They are the files of the root directory with a path whose fetch returns, and,
  for every key directory whose page is listed, the \<open>.py\<close> and \<open>.md\<close> files of its
  rows whose fetch returns. Each function also returns the state it leaves.
\<close>

fun github_root_visited ::
  "env \<Rightarrow> entry list \<Rightarrow> state \<Rightarrow> (string \<times> string) list \<times> state" where
  "github_root_visited env [] st = ([], st)"
| "github_root_visited env (file # files) st =
     (if entry_path file = [] then github_root_visited env files st
      else
        (case fetch_github_file env st (entry_path file) of
           (Inl e, st1) \<Rightarrow> github_root_visited env files st1
         | (Inr file_content, st1) \<Rightarrow>
             (case github_root_visited env files st1 of
                (visited, st2) \<Rightarrow> ((entry_path file, file_content) # visited, st2))))"

fun github_rows_visited ::
  "env \<Rightarrow> string option list \<Rightarrow> state \<Rightarrow> (string \<times> string) list \<times> state" where
  "github_rows_visited env [] st = ([], st)"
| "github_rows_visited env (None # items) st = github_rows_visited env items st"
| "github_rows_visited env (Some href # items) st =
     (if is_text_file (replace href blob_prefix [])
      then
        (case fetch_github_file env st (replace href blob_prefix []) of
           (Inl e, st1) \<Rightarrow> github_rows_visited env items st1
         | (Inr file_content, st1) \<Rightarrow>
             (case github_rows_visited env items st1 of
                (visited, st2) \<Rightarrow>
                  ((replace href blob_prefix [], file_content) # visited, st2)))
      else github_rows_visited env items st)"

definition github_directory_visited ::
  "env \<Rightarrow> string \<Rightarrow> state \<Rightarrow> (string \<times> string) list \<times> state" where
  "github_directory_visited env dir_path st =
     (case client_get env st (GITHUB_URL @ ''/tree/main/'' @ dir_path) of
        (Inl e, st1) \<Rightarrow> ([], st1)
      | (Inr response, st1) \<Rightarrow>
          if status_code response = 404 then ([], st1)
          else (case status_error response of
                  Some e \<Rightarrow> ([], st1)
                | None \<Rightarrow> github_rows_visited env (box_row_hrefs env (resp_text response)) st1))"

fun github_gather_visited ::
  "env \<Rightarrow> string list \<Rightarrow> state \<Rightarrow> (string \<times> string) list \<times> state" where
  "github_gather_visited env [] st = ([], st)"
| "github_gather_visited env (dir_name # dirs) st =
     (case github_directory_visited env dir_name st of
        (visited1, st1) \<Rightarrow>
          (case github_gather_visited env dirs st1 of
             (visited2, st2) \<Rightarrow> (visited1 @ visited2, st2)))"

definition search_github_corpus :: "env \<Rightarrow> state \<Rightarrow> (string \<times> string) list" where
  "search_github_corpus env st =
     (case get_github_structure env st of
        (structure0, st1) \<Rightarrow>
          (case github_root_visited env
                  (case gh_error structure0 of Some e \<Rightarrow> [] | None \<Rightarrow> gh_files structure0)
                  st1 of
             (visited1, st2) \<Rightarrow>
               visited1 @ fst (github_gather_visited env github_key_dirs st2)))"

section \<open>\<open>get_section\<close>\<close>

definition heading_tags :: "string list" where
  "heading_tags = [''h1'', ''h2'', ''h3'', ''h4'', ''h5'', ''h6'']"

text \<open>
  \<open>int(name[1])\<close> on a tag name: the value of a decimal digit, \<open>ValueError\<close> on any other
  character, \<open>IndexError\<close> when the name has no second character.
\<close>

definition hex2 :: "nat \<Rightarrow> string" where
  "hex2 n = [''0123456789abcdef'' ! (n div 16), ''0123456789abcdef'' ! (n mod 16)]"

text \<open>
  \<open>repr(s)\<close> of a string of one character: between apostrophes, or between double
  quotes when it is the apostrophe; the backslash doubled; tab, newline and carriage
  return by their letters; any other character that is not printable by a hexadecimal
  escape of two digits.
\<close>

definition repr_char :: "char \<Rightarrow> string" where
  "repr_char c =
     (let n = (of_char c :: nat)
      in if n = 39 then [CHR 0x22, c, CHR 0x22]
         else q @ (if n = 92 then [c, c]
                   else if n = 9 then [CHR 0x5C, CHR ''t'']
                   else if n = 10 then [CHR 0x5C, CHR ''n'']
                   else if n = 13 then [CHR 0x5C, CHR ''r'']
                   else if n < 32 \<or> (127 \<le> n \<and> n \<le> 160) \<or> n = 173
                   then [CHR 0x5C, CHR ''x''] @ hex2 n
                   else [c]) @ q)"

definition int_of_char :: "char \<Rightarrow> exn + nat" where
  "int_of_char c =
     (let n = (of_char c :: nat)
      in if 48 \<le> n \<and> n \<le> 57 then Inr (n - 48)
         else Inl (ValueError (''invalid literal for int() with base 10: '' @ repr_char c)))"

definition name_level :: "string \<Rightarrow> exn + nat" where
  "name_level nm =
     (if 1 < length nm then int_of_char (nm ! 1)
      else Inl (IndexError ''string index out of range''))"

text \<open>
  The test \<open>node.name and node.name[0] == 'h' and len(node.name) == 2\<close> of the boundary
  walk.
\<close>

definition looks_like_heading :: "node \<Rightarrow> bool" where
  "looks_like_heading n =
     (case node_name n of
        None \<Rightarrow> False
      | Some nm \<Rightarrow> nm \<noteq> [] \<and> hd nm = CHR ''h'' \<and> length nm = 2)"

subsection \<open>Finding the heading\<close>

text \<open>
  Phase 1:
  \<^verbatim>\<open>
    for tag in heading_tags:
        headings = soup.find_all(tag)
        for heading in headings:
            heading_text = heading.get_text().lower()
            if section_lower == heading_text or section_lower in heading_text:
                found_heading = heading
                break
        if found_heading:
            break
  \<close>
  A heading is kept with its path, which stands for the identity of the Python object.
\<close>

definition heading_matches :: "string \<Rightarrow> node \<Rightarrow> bool" where
  "heading_matches section_lower heading =
     (let heading_text = lower (get_text heading)
      in section_lower = heading_text \<or> str_in section_lower heading_text)"

fun first_match_in :: "string \<Rightarrow> (nat list \<times> node) list \<Rightarrow> (nat list \<times> node) option" where
  "first_match_in section_lower [] = None"
| "first_match_in section_lower (heading # headings) =
     (if heading_matches section_lower (snd heading) then Some heading
      else first_match_in section_lower headings)"

fun first_match ::
  "node list \<Rightarrow> string \<Rightarrow> string list \<Rightarrow> (nat list \<times> node) option" where
  "first_match soup section_lower [] = None"
| "first_match soup section_lower (tag # tags) =
     (case first_match_in section_lower (find_all tag soup) of
        Some heading \<Rightarrow> Some heading
      | None \<Rightarrow> first_match soup section_lower tags)"

text \<open>
  Phase 2: the heading with the most words of the section name in its text, the first
  one among equals, if it has any.
\<close>

definition match_score :: "string \<Rightarrow> node \<Rightarrow> nat" where
  "match_score section_lower heading =
     length (filter (\<lambda>word. str_in word (lower (get_text heading))) (split_ws section_lower))"

definition best_step ::
  "string \<Rightarrow> (nat list \<times> node) \<Rightarrow> (nat list \<times> node) option \<times> nat
     \<Rightarrow> (nat list \<times> node) option \<times> nat" where
  "best_step section_lower heading = (\<lambda>(best_match, best_match_score).
     if best_match_score < match_score section_lower (snd heading)
     then (Some heading, match_score section_lower (snd heading))
     else (best_match, best_match_score))"

definition best_match :: "node list \<Rightarrow> string \<Rightarrow> (nat list \<times> node) option" where
  "best_match soup section_lower =
     (let (best, best_match_score) =
            fold (\<lambda>tag acc. fold (best_step section_lower) (find_all tag soup) acc)
              heading_tags (None, 0)
      in if 0 < best_match_score then best else None)"

definition find_heading :: "node list \<Rightarrow> string \<Rightarrow> (nat list \<times> node) option" where
  "find_heading soup section_lower =
     (case first_match soup section_lower heading_tags of
        Some heading \<Rightarrow> Some heading
      | None \<Rightarrow> best_match soup section_lower)"

definition all_sections :: "node list \<Rightarrow> string list" where
  "all_sections soup =
     concat (map (\<lambda>tag. map (\<lambda>(p, heading). strip (get_text heading)) (find_all tag soup))
               heading_tags)"

subsection \<open>The boundary walk\<close>

text \<open>The contents of the node at a path (of the document at the empty path).\<close>

fun contents_at :: "node list \<Rightarrow> nat list \<Rightarrow> node list" where
  "contents_at soup [] = soup"
| "contents_at soup (i # p) =
     (if i < length soup then contents_at (node_contents (soup ! i)) p else [])"

text \<open>The chain of \<open>next_sibling\<close> that starts after the node at a path.\<close>

definition next_siblings :: "node list \<Rightarrow> nat list \<Rightarrow> node list" where
  "next_siblings soup p =
     (if p = [] then [] else drop (Suc (last p)) (contents_at soup (butlast p)))"

text \<open>
  \<^verbatim>\<open>
    if current.name:
        content.append(current.get_text(strip=True))
    elif isinstance(current, str) and current.strip():
        content.append(current.strip())
  \<close>
\<close>

fun append_text :: "node \<Rightarrow> string list \<Rightarrow> string list" where
  "append_text (Tag n a l cs) content =
     (if n \<noteq> [] then content @ [get_text_strip (Tag n a l cs)] else content)"
| "append_text (NavigableString s) content =
     (if strip s \<noteq> [] then content @ [strip s] else content)"
| "append_text (SpecialString s) content =
     (if strip s \<noteq> [] then content @ [strip s] else content)"

text \<open>
  \<^verbatim>\<open>
    while current and not next_heading:
        if current.name and current.name[0] == 'h' and len(current.name) == 2:
            current_level = int(current.name[1])
            if current_level <= heading_level:
                next_heading = current
                break
        ... append the text ...
        current = current.next_sibling
  \<close>
  The walk returns \<open>content\<close> and \<open>next_heading\<close>, or the exception of \<open>int\<close>.
\<close>

fun section_walk ::
  "nat \<Rightarrow> node list \<Rightarrow> string list \<Rightarrow> exn + (string list \<times> node option)" where
  "section_walk heading_level [] content = Inr (content, None)"
| "section_walk heading_level (current # rest) content =
     (if \<not> truthy current then Inr (content, None)
      else if looks_like_heading current
      then (case name_level (the (node_name current)) of
              Inl e \<Rightarrow> Inl e
            | Inr current_level \<Rightarrow>
                if current_level \<le> heading_level then Inr (content, Some current)
                else section_walk heading_level rest (append_text current content))
      else section_walk heading_level rest (append_text current content))"

text \<open>
  The second pass, over the children of the enclosing \<open>div\<close> that follow the heading:
  a \<open>for\<close> loop with the same body, which sets no \<open>next_heading\<close>.
\<close>

fun container_walk :: "nat \<Rightarrow> node list \<Rightarrow> string list \<Rightarrow> exn + string list" where
  "container_walk heading_level [] content = Inr content"
| "container_walk heading_level (child # rest) content =
     (if looks_like_heading child
      then (case name_level (the (node_name child)) of
              Inl e \<Rightarrow> Inl e
            | Inr current_level \<Rightarrow>
                if current_level \<le> heading_level then Inr content
                else container_walk heading_level rest (append_text child content))
      else container_walk heading_level rest (append_text child content))"

text \<open>
  Equality of two nodes as \<open>==\<close> decides it: same name, same attributes and equal
  contents for tags, the same text for strings of either kind; the source line plays no
  part.
\<close>

fun node_string :: "node \<Rightarrow> string option" where
  "node_string (Tag n a l cs) = None"
| "node_string (NavigableString s) = Some s"
| "node_string (SpecialString s) = Some s"

fun node_eq :: "node \<Rightarrow> node \<Rightarrow> bool" and nodes_eq :: "node list \<Rightarrow> node list \<Rightarrow> bool" where
  "node_eq (Tag n a l cs) (Tag n' a' l' cs') = (n = n' \<and> set a = set a' \<and> nodes_eq cs cs')"
| "node_eq (Tag n a l cs) x = False"
| "node_eq x (Tag n' a' l' cs') = False"
| "node_eq x y = (node_string x = node_string y)"
| "nodes_eq [] [] = True"
| "nodes_eq (c # cs) (c' # cs') = (node_eq c c' \<and> nodes_eq cs cs')"
| "nodes_eq [] (c' # cs') = False"
| "nodes_eq (c # cs) [] = False"

text \<open>
  \<open>found_heading.find_parent('div', class_=['section', 'markdown-body', 'content'])\<close>:
  the nearest enclosing \<open>div\<close> with one of the classes, as the path of that \<open>div\<close>.
\<close>

fun node_at :: "node list \<Rightarrow> nat list \<Rightarrow> node option" where
  "node_at soup [] = None"
| "node_at soup [i] = (if i < length soup then Some (soup ! i) else None)"
| "node_at soup (i # j # p) =
     (if i < length soup then node_at (node_contents (soup ! i)) (j # p) else None)"

definition is_parent_div :: "node list \<Rightarrow> nat list \<Rightarrow> bool" where
  "is_parent_div soup p =
     (case node_at soup p of
        None \<Rightarrow> False
      | Some n \<Rightarrow> node_name n = Some ''div''
                  \<and> has_class [''section'', ''markdown-body'', ''content''] n)"

function find_parent :: "node list \<Rightarrow> nat list \<Rightarrow> nat list option" where
  "find_parent soup p =
     (if p = [] then None
      else if is_parent_div soup (butlast p) then Some (butlast p)
      else find_parent soup (butlast p))"
  by pat_completeness auto
termination
  by (relation "measure (\<lambda>(soup, p). length p)") auto

declare find_parent.simps [simp del]

text \<open>The index of the first child equal to the heading, \<open>None\<close> for \<open>-1\<close>.\<close>

fun index_of :: "node \<Rightarrow> node list \<Rightarrow> nat \<Rightarrow> nat option" where
  "index_of found_heading [] i = None"
| "index_of found_heading (child # rest) i =
     (if node_eq child found_heading then Some i else index_of found_heading rest (Suc i))"

definition fallback_content :: "node list \<Rightarrow> nat list \<times> node \<Rightarrow> nat \<Rightarrow> exn + string list" where
  "fallback_content soup found_heading heading_level =
     (case find_parent soup (fst found_heading) of
        None \<Rightarrow> Inr []
      | Some parent_div \<Rightarrow>
          (let div_children = contents_at soup parent_div
           in case index_of (snd found_heading) div_children 0 of
                None \<Rightarrow> Inr []
              | Some heading_index \<Rightarrow>
                  container_walk heading_level (drop (Suc heading_index) div_children) []))"

subsection \<open>Code examples and the reply\<close>

text \<open>
  \<^verbatim>\<open>
    for code_block in code_blocks:
        if code_block.sourceline > found_heading.sourceline:
            if next_heading and code_block.sourceline < next_heading.sourceline:
                section_code_examples.append(code_block.get_text())
  \<close>
\<close>

fun code_examples_loop ::
  "node \<Rightarrow> node option \<Rightarrow> node list \<Rightarrow> string list \<Rightarrow> string list" where
  "code_examples_loop found_heading next_heading [] section_code_examples =
     section_code_examples"
| "code_examples_loop found_heading next_heading (code_block # code_blocks)
     section_code_examples =
     code_examples_loop found_heading next_heading code_blocks
       (if sourceline found_heading < sourceline code_block
        then (case next_heading of
                Some nh \<Rightarrow>
                  if sourceline code_block < sourceline nh
                  then section_code_examples @ [get_text code_block]
                  else section_code_examples
              | None \<Rightarrow> section_code_examples)
        else section_code_examples)"

definition section_code_examples :: "node list \<Rightarrow> node \<Rightarrow> node option \<Rightarrow> string list" where
  "section_code_examples soup found_heading next_heading =
     code_examples_loop found_heading next_heading (map snd (find_all ''pre'' soup)) []"

text \<open>
  What \<open>get_section\<close> does with the parsed page: the reply, or the exception that the
  enclosing \<open>try\<close> turns into a message.
\<close>

definition section_not_found :: "node list \<Rightarrow> string \<Rightarrow> string \<Rightarrow> json" where
  "section_not_found soup section full_url =
     JObj [(''error'', JStr (''Section '' @ q @ section @ q @ '' not found in the documentation.'')),
           (''available_sections'', JArr (map JStr (take 15 (all_sections soup)))),
           (''page_url'', JStr full_url)]"

definition section_empty :: "node \<Rightarrow> string \<Rightarrow> string \<Rightarrow> json" where
  "section_empty found_heading section full_url =
     JObj [(''error'', JStr (''Found section '' @ q @ section @ q
                            @ '' but couldn'' @ q @ ''t extract content.'')),
           (''heading'', JStr (get_text found_heading)),
           (''page_url'', JStr full_url)]"

definition extract_section :: "node list \<Rightarrow> string \<Rightarrow> string \<Rightarrow> exn + json" where
  "extract_section soup section full_url =
     (case find_heading soup (lower section) of
        None \<Rightarrow> Inr (section_not_found soup section full_url)
      | Some found_heading \<Rightarrow>
          (case name_level (the (node_name (snd found_heading))) of
             Inl e \<Rightarrow> Inl e
           | Inr heading_level \<Rightarrow>
               (case section_walk heading_level (next_siblings soup (fst found_heading)) [] of
                  Inl e \<Rightarrow> Inl e
                | Inr (content1, next_heading) \<Rightarrow>
                    (case (if content1 = []
                           then fallback_content soup found_heading heading_level
                           else Inr content1) of
                       Inl e \<Rightarrow> Inl e
                     | Inr content \<Rightarrow>
                         if content = []
                         then Inr (section_empty (snd found_heading) section full_url)
                         else Inr (JObj
                           [(''section'', JStr (get_text (snd found_heading))),
                            (''content'', JStr (join [CHR 0x0A] content)),
                            (''code_examples'',
                             JArr (map JStr (section_code_examples soup (snd found_heading)
                                               next_heading))),
                            (''page_url'', JStr full_url)])))))"

text \<open>The URL that \<open>get_section\<close> and \<open>get_doc\<close> request for a page.\<close>

definition page_url :: "env \<Rightarrow> string \<Rightarrow> string" where
  "page_url env page =
     (let full_url = (if startswith page ''http'' then page else urljoin env DOCS_URL page)
      in if \<not> endswith full_url ''.html'' then full_url @ ''.html'' else full_url)"

definition get_section :: "env \<Rightarrow> state \<Rightarrow> string \<Rightarrow> string \<Rightarrow> reply \<times> state" where
  "get_section env st page section =
     (if page = [] \<or> section = []
      then (Plain ''Please provide both a page path and section name.'', st)
      else
        (let full_url = page_url env page;
             (r, st1) = client_get env st full_url
         in case r of
              Inl e \<Rightarrow> (Plain (''Error retrieving section: '' @ str_exn e), st1)
            | Inr response \<Rightarrow>
                if status_code response = 404
                then (Plain (''Documentation page not found: '' @ page), st1)
                else (case status_error response of
                        Some e \<Rightarrow> (Plain (''Error retrieving section: '' @ str_exn e), st1)
                      | None \<Rightarrow>
                          (case extract_section (parse_html env (resp_text response)) section
                                  full_url of
                             Inl e \<Rightarrow> (Plain (''Error retrieving section: '' @ str_exn e), st1)
                           | Inr j \<Rightarrow> (Dumps j, st1)))))"

section \<open>\<open>get_doc\<close>\<close>

text \<open>
  The links offered when the page is missing: for every \<open>a\<close> with an \<open>href\<close> that is
  not absolute, a fragment or a script, its stripped text (the \<open>href\<close> when the text is
  empty) and the \<open>href\<close>.
\<close>

definition is_site_link :: "string \<Rightarrow> bool" where
  "is_site_link href =
     (\<not> (startswith href ''http://'' \<or> startswith href ''https://''
          \<or> startswith href ''#'' \<or> startswith href ''javascript:''))"

definition available_pages :: "node list \<Rightarrow> json list" where
  "available_pages soup =
     concat (map (\<lambda>(p, a).
                case get_attr a ''href'' of
                  None \<Rightarrow> []
                | Some href \<Rightarrow>
                    if is_site_link href
                    then [JObj [(''title'', JStr (if get_text_strip a \<noteq> [] then get_text_strip a
                                                 else href)),
                                (''href'', JStr href)]]
                    else [])
             (find_all ''a'' soup))"

definition doc_structure :: "node \<Rightarrow> json list" where
  "doc_structure m =
     concat (map (\<lambda>(tag, level).
                map (\<lambda>(p, heading). JObj [(''level'', JNum level),
                                           (''text'', JStr (get_text_strip heading))])
                  (find_all tag (node_contents m)))
             [(''h1'', 1), (''h2'', 2), (''h3'', 3), (''h4'', 4)])"

definition doc_error :: "exn \<Rightarrow> reply" where
  "doc_error e = Plain (''Error retrieving documentation: '' @ str_exn e)"

definition render_doc :: "node list \<Rightarrow> string \<Rightarrow> json" where
  "render_doc soup url =
     (let page_title = (case find_tag ''title'' soup of
                          Some (p, title) \<Rightarrow> get_text title
                        | None \<Rightarrow> ''Unknown Title'')
      in case main_content soup of
           Some m \<Rightarrow>
             JObj [(''title'', JStr page_title), (''url'', JStr url),
                   (''content'', JStr (get_text_lines m)),
                   (''structure'', JArr (doc_structure m)),
                   (''code_examples'',
                    JArr (map (\<lambda>(p, block). JStr (get_text block))
                            (find_all ''pre'' (node_contents m))))]
         | None \<Rightarrow>
             JObj [(''title'', JStr page_title), (''url'', JStr url),
                   (''content'', JStr (soup_text_lines soup)),
                   (''note'',
                    JStr ''Could not identify main content area, returning full page text.'')])"

definition get_doc :: "env \<Rightarrow> state \<Rightarrow> string \<Rightarrow> reply \<times> state" where
  "get_doc env st path =
     (if path = [] then (Plain ''Please provide a documentation page path.'', st)
      else
        (let url = page_url env path;
             (r, st1) = client_get env st url
         in case r of
              Inl e \<Rightarrow> (doc_error e, st1)
            | Inr response \<Rightarrow>
                if status_code response = 404
                then
                  (let (r2, st2) = client_get env st1 DOCS_URL
                   in case r2 of
                        Inl e \<Rightarrow> (doc_error e, st2)
                      | Inr index_response \<Rightarrow>
                          (case status_error index_response of
                             Some e \<Rightarrow> (doc_error e, st2)
                           | None \<Rightarrow>
                               (Dumps (JObj
                                  [(''error'', JStr (''Documentation page not found: '' @ path)),
                                   (''available_pages'',
                                    JArr (take 20 (available_pages
                                            (parse_html env (resp_text index_response)))))]),
                                st2)))
                else (case status_error response of
                        Some e \<Rightarrow> (doc_error e, st1)
                      | None \<Rightarrow>
                          (Dumps (render_doc (parse_html env (resp_text response)) url), st1))))"

section \<open>\<open>list_github_structure\<close>\<close>

text \<open>\<open>s.split(sep)\<close> for a one-character separator: the pieces between the separators.\<close>

fun split_on :: "char \<Rightarrow> string \<Rightarrow> string list" where
  "split_on c [] = [[]]"
| "split_on c (x # xs) =
     (if x = c then [] # split_on c xs
      else (case split_on c xs of w # ws \<Rightarrow> (x # w) # ws | [] \<Rightarrow> [[x]]))"

text \<open>Dictionaries of the result, as JSON objects: \<open>d[k]\<close> and \<open>d[k] = v\<close>.\<close>

fun get_key :: "json \<Rightarrow> string \<Rightarrow> json option" where
  "get_key (JObj kvs) k = map_of kvs k"
| "get_key j k = None"

fun set_key :: "string \<Rightarrow> json \<Rightarrow> json \<Rightarrow> json" where
  "set_key k v (JObj kvs) =
     (if k \<in> fst ` set kvs then JObj (map (\<lambda>(k', v'). if k' = k then (k', v) else (k', v')) kvs)
      else JObj (kvs @ [(k, v)]))"
| "set_key k v j = j"

definition dir_json :: "entry \<Rightarrow> json" where
  "dir_json d = JObj [(''name'', JStr (entry_name d)), (''path'', JStr (entry_path d))]"

definition file_json :: "entry \<times> string \<Rightarrow> json" where
  "file_json = (\<lambda>(f, extension).
     JObj [(''name'', JStr (entry_name f)), (''path'', JStr (entry_path f)),
           (''extension'', JStr extension),
           (''url'', JStr (GITHUB_URL @ ''/blob/main/'' @ entry_path f))])"

definition default_example_files :: "json list" where
  "default_example_files =
     [JObj [(''name'', JStr ''basic_agent.py''), (''path'', JStr ''examples/basic_agent.py''),
            (''extension'', JStr ''py'')],
      JObj [(''name'', JStr ''handoffs.py''), (''path'', JStr ''examples/handoffs.py''),
            (''extension'', JStr ''py'')]]"

text \<open>
  The files and directories of the structure, with the defaults for \<open>examples\<close> and
  \<open>src\<close> when the page gave nothing.
\<close>

definition structure_entries ::
  "string \<Rightarrow> (entry \<times> string) list \<Rightarrow> entry list \<Rightarrow> json list \<times> json list" where
  "structure_entries dir_path files dirs =
     (if files = [] \<and> dirs = []
      then (if dir_path = ''examples'' then (default_example_files, [])
            else if dir_path = ''src''
            then ([], [JObj [(''name'', JStr ''agents''), (''path'', JStr ''src/agents'')]])
            else ([], []))
      else (map file_json files, map dir_json dirs))"

definition structure_json :: "json list \<Rightarrow> json list \<Rightarrow> string \<Rightarrow> json" where
  "structure_json files directories dir_path =
     JObj [(''files'', JArr files), (''directories'', JArr directories),
           (''path'', JStr dir_path)]"

text \<open>
  \<^verbatim>\<open>
    for dir_info in structure["directories"]:
        if dir_info["name"] == subdir_name or dir_info["path"] == subdirs[i]:
            dir_info["contents"] = result
            break
  \<close>
\<close>

fun set_contents :: "string \<Rightarrow> string \<Rightarrow> json \<Rightarrow> json list \<Rightarrow> json list" where
  "set_contents subdir_name subdir result [] = []"
| "set_contents subdir_name subdir result (dir_info # rest) =
     (if get_key dir_info ''name'' = Some (JStr subdir_name)
         \<or> get_key dir_info ''path'' = Some (JStr subdir)
      then set_key ''contents'' result dir_info # rest
      else dir_info # set_contents subdir_name subdir result rest)"

fun attach_results :: "string list \<Rightarrow> json list \<Rightarrow> json list \<Rightarrow> json list" where
  "attach_results (subdir # subdirs) (result # results) directories =
     attach_results subdirs results
       (set_contents (last (split_on CHR ''/'' subdir)) subdir result directories)"
| "attach_results subdirs results directories = directories"

definition max_depth_note :: json where
  "max_depth_note = JObj [(''note'', JStr ''Max depth reached'')]"

definition directory_not_found :: "string \<Rightarrow> json" where
  "directory_not_found dir_path = JObj [(''error'', JStr (''Directory not found: '' @ dir_path))]"

definition directory_failed :: "string \<Rightarrow> exn \<Rightarrow> json" where
  "directory_failed dir_path e =
     JObj [(''error'', JStr (''Error processing directory '' @ dir_path @ '': '' @ str_exn e))]"

text \<open>
  \<open>process_directory(dir_path, max_depth)\<close> on the list \<open>errors\<close> and the state, and the
  gathering of the subdirectories' results (one after the other, in their order).
  \<^verbatim>\<open>
    if max_depth <= 0:
        return {"note": "Max depth reached"}
    ... request, listing, defaults ...
    if max_depth > 1 and subdirs:
        ... process_directory(subdir, max_depth - 1) for every subdir ...
  \<close>
\<close>

function process_directory ::
    "env \<Rightarrow> string \<Rightarrow> int \<Rightarrow> string list \<times> state \<Rightarrow> json \<times> string list \<times> state"
  and process_subdirs ::
    "env \<Rightarrow> string list \<Rightarrow> int \<Rightarrow> string list \<times> state \<Rightarrow> json list \<times> string list \<times> state"
where
  "process_directory env dir_path max_depth acc =
     (if max_depth \<le> 0 then (max_depth_note, acc)
      else
        (case client_get env (snd acc) (GITHUB_URL @ ''/tree/main/'' @ dir_path) of
           (Inl e, st1) \<Rightarrow> (directory_failed dir_path e, fst acc, st1)
         | (Inr response, st1) \<Rightarrow>
             if status_code response = 404 then (directory_not_found dir_path, fst acc, st1)
             else
               (case status_error response of
                  Some e \<Rightarrow> (directory_failed dir_path e, fst acc, st1)
                | None \<Rightarrow>
                    (case dir_listing env dir_path (resp_text response) of
                       (files, dirs, item_errors) \<Rightarrow>
                         (case structure_entries dir_path files dirs of
                            (file_list, directories) \<Rightarrow>
                              if 1 < max_depth \<and> dirs \<noteq> []
                              then
                                (case process_subdirs env (map entry_path dirs) (max_depth - 1)
                                        (fst acc @ item_errors, st1) of
                                   (subdir_results, acc2) \<Rightarrow>
                                     (structure_json file_list
                                        (attach_results (map entry_path dirs) subdir_results
                                           directories)
                                        dir_path,
                                      acc2))
                              else (structure_json file_list directories dir_path,
                                    fst acc @ item_errors, st1))))))"
| "process_subdirs env [] max_depth acc = ([], acc)"
| "process_subdirs env (subdir # subdirs) max_depth acc =
     (case process_directory env subdir max_depth acc of
        (result, acc1) \<Rightarrow>
          (case process_subdirs env subdirs max_depth acc1 of
             (results, acc2) \<Rightarrow> (result # results, acc2)))"
  by pat_completeness auto
termination
  by (relation "inv_image (less_than <*lex*> less_than)
        (\<lambda>x. case x of
                Inl (env, dir_path, max_depth, acc) \<Rightarrow> (2 * nat max_depth, 0)
              | Inr (env, subdirs, max_depth, acc) \<Rightarrow> (2 * nat max_depth + 1, length subdirs))")
     auto

declare process_directory.simps [simp del]

text \<open>The tool: the root listing, and the four key directories with the default depth 2.\<close>

definition structure_key_dirs :: "string list" where
  "structure_key_dirs = [''examples'', ''src'', ''docs'', ''tests'']"

definition list_github_structure :: "env \<Rightarrow> state \<Rightarrow> reply \<times> state" where
  "list_github_structure env st =
     (case get_github_structure env st of
        (structure0, st1) \<Rightarrow>
          (let root_structure =
                 (case gh_error structure0 of
                    Some e \<Rightarrow> JObj [(''files'', JArr []),
                                     (''directories'', JArr (map dir_json default_dirs))]
                  | None \<Rightarrow>
                      JObj [(''files'', JArr (map dir_json (gh_files structure0))),
                            (''directories'', JArr (map dir_json (gh_directories structure0)))]);
               root_files = (case gh_error structure0 of Some e \<Rightarrow> []
                             | None \<Rightarrow> gh_files structure0);
               root_dirs = (case gh_error structure0 of Some e \<Rightarrow> default_dirs
                            | None \<Rightarrow> gh_directories structure0)
           in case process_subdirs env structure_key_dirs 2 ([], st1) of
                (dir_results, errors, st2) \<Rightarrow>
                  (Dumps (JObj
                     ([(''repository'', JStr ''openai/openai-agents-python''),
                       (''url'', JStr GITHUB_URL),
                       (''root'', root_structure),
                       (''directories'', JObj (zip structure_key_dirs dir_results))]
                      @ (if errors \<noteq> [] then [(''errors'', JArr (map JStr errors))] else [])
                      @ [(''summary'',
                          JObj [(''total_root_files'', JNum (int (length root_files))),
                                (''total_root_directories'', JNum (int (length root_dirs))),
                                (''explored_directories'',
                                 JArr (map JStr structure_key_dirs))])])),
                   st2)))"

section \<open>\<open>search_files\<close>\<close>

definition file_match :: "string \<Rightarrow> string \<Rightarrow> json" where
  "file_match name path =
     JObj [(''name'', JStr name), (''path'', JStr path),
           (''url'', JStr (GITHUB_URL @ ''/blob/main/'' @ path))]"

text \<open>The files of the root directory whose lowercased name contains the pattern.\<close>

definition root_matches :: "string \<Rightarrow> entry list \<Rightarrow> json list" where
  "root_matches filename_pattern files =
     map (\<lambda>f. file_match (lower (entry_name f)) (entry_path f))
       (filter (\<lambda>f. str_in filename_pattern (lower (entry_name f))) files)"

text \<open>
  The loop of \<open>search_directory\<close> over the rows of a directory page, on \<open>matches\<close>,
  \<open>search_errors\<close> and \<open>subdirs\<close>:
  \<^verbatim>\<open>
    svg = item.select_one("svg")
    link = item.select_one("a[data-pjax]")
    if not link:
        continue
    name = link.get_text(strip=True)
    is_dir = svg and "dir" in svg.get("aria-label", "").lower() if svg.get("aria-label") else False
    if is_dir:
        subdirs.append(f"{dir_path}/{name}")
    else:
        if filename_pattern in name.lower():
            matches.append(...)
  \<close>
  The condition \<open>svg.get("aria-label")\<close> is evaluated first, and raises
  \<open>AttributeError\<close> on a row without \<open>svg\<close>; the row's \<open>except\<close> records it.
\<close>

definition item_error :: "string \<Rightarrow> exn \<Rightarrow> string" where
  "item_error dir_path e = ''Error processing item in '' @ dir_path @ '': '' @ str_exn e"

definition none_has_no_get :: exn where
  "none_has_no_get = AttributeError (q @ ''NoneType'' @ q @ '' object has no attribute '' @ q
                                     @ ''get'' @ q)"

definition row_is_dir :: "string option \<Rightarrow> bool" where
  "row_is_dir label =
     (case label of
        None \<Rightarrow> False
      | Some l \<Rightarrow> if l \<noteq> [] then str_in ''dir'' (lower l) else False)"

fun files_rows_loop ::
  "string \<Rightarrow> string \<Rightarrow> row list \<Rightarrow> json list \<times> string list \<times> string list
     \<Rightarrow> json list \<times> string list \<times> string list" where
  "files_rows_loop filename_pattern dir_path [] acc = acc"
| "files_rows_loop filename_pattern dir_path (item # items) (matches, search_errors, subdirs) =
     files_rows_loop filename_pattern dir_path items
       (case row_link_text item of
          None \<Rightarrow> (matches, search_errors, subdirs)
        | Some name \<Rightarrow>
            (case row_svg item of
               None \<Rightarrow> (matches, search_errors @ [item_error dir_path none_has_no_get], subdirs)
             | Some label \<Rightarrow>
                 if row_is_dir label
                 then (matches, search_errors, subdirs @ [dir_path @ ''/'' @ name])
                 else if str_in filename_pattern (lower name)
                 then (matches @ [file_match name (dir_path @ ''/'' @ name)],
                       search_errors, subdirs)
                 else (matches, search_errors, subdirs)))"

text \<open>
  \<open>len(subdir.split('/'))\<close>, and the bound that it gives to the recursion: a
  subdirectory has more segments than its directory, and a directory of more than three
  segments is not searched.
\<close>

definition segments :: "string \<Rightarrow> nat" where
  "segments s = length (split_on CHR ''/'' s)"

definition dir_fuel :: "string \<Rightarrow> nat" where
  "dir_fuel dir_path = 2 * (4 - segments dir_path) + 1"

fun subdirs_fuel :: "string list \<Rightarrow> nat" where
  "subdirs_fuel [] = 0"
| "subdirs_fuel (subdir # subdirs) =
     max (if segments subdir \<le> 3 then dir_fuel subdir + 1 else 0) (subdirs_fuel subdirs)"

lemma length_split_on: "length (split_on c s) = Suc (count_list s c)"
  by (induction s) (auto split: list.splits)

lemma segments_subdir: "segments (dir_path @ ''/'' @ name) = segments dir_path + segments name"
  by (simp add: segments_def length_split_on)

lemma segments_pos: "0 < segments s"
  by (simp add: segments_def length_split_on)

lemma subdirs_fuel_below:
  "\<forall>subdir\<in>set subdirs. \<exists>name. subdir = dir_path @ ''/'' @ name \<Longrightarrow>
   subdirs_fuel subdirs < dir_fuel dir_path"
proof (induction subdirs)
  case Nil
  then show ?case by (simp add: dir_fuel_def)
next
  case (Cons subdir subdirs)
  then obtain name where n: "subdir = dir_path @ ''/'' @ name" by auto
  from segments_pos[of name] have "segments dir_path < segments subdir"
    unfolding n segments_subdir by simp
  then have "segments subdir \<le> 3 \<Longrightarrow> dir_fuel subdir + 1 < dir_fuel dir_path"
    by (simp add: dir_fuel_def)
  with Cons show ?case by (auto simp: dir_fuel_def)
qed

lemma files_rows_loop_subdirs:
  "files_rows_loop filename_pattern dir_path items (matches, search_errors, subdirs)
     = (matches', search_errors', subdirs') \<Longrightarrow>
   \<forall>subdir\<in>set subdirs'. subdir \<in> set subdirs \<or> (\<exists>name. subdir = dir_path @ ''/'' @ name)"
proof (induction items arbitrary: matches search_errors subdirs)
  case Nil
  then show ?case by simp
next
  case (Cons item items)
  show ?case
  proof (cases "row_link_text item")
    case None
    with Cons.prems Cons.IH[of matches search_errors subdirs] show ?thesis by simp
  next
    case (Some name)
    show ?thesis
    proof (cases "row_svg item")
      case None
      with Some Cons.prems
        Cons.IH[of matches "search_errors @ [item_error dir_path none_has_no_get]" subdirs]
      show ?thesis by simp
    next
      case (Some label)
      show ?thesis
      proof (cases "row_is_dir label")
        case True
        with Some \<open>row_link_text item = Some name\<close> Cons.prems
          Cons.IH[of matches search_errors "subdirs @ [dir_path @ ''/'' @ name]"]
        show ?thesis by auto
      next
        case False
        with Some \<open>row_link_text item = Some name\<close> Cons.prems
          Cons.IH[of "matches @ [file_match name (dir_path @ ''/'' @ name)]" search_errors subdirs]
          Cons.IH[of matches search_errors subdirs]
        show ?thesis by (cases "str_in filename_pattern (lower name)") simp_all
      qed
    qed
  qed
qed

text \<open>
  \<open>search_directory(dir_path)\<close> on \<open>matches\<close>, \<open>search_errors\<close> and the state, and its
  loop over the subdirectories:
  \<^verbatim>\<open>
    for subdir in subdirs:
        if len(subdir.split('/')) <= 3:
            await search_directory(subdir)
  \<close>
\<close>

function files_search_directory ::
    "env \<Rightarrow> string \<Rightarrow> string \<Rightarrow> json list \<times> string list \<times> state
       \<Rightarrow> json list \<times> string list \<times> state"
  and files_search_subdirs ::
    "env \<Rightarrow> string \<Rightarrow> string list \<Rightarrow> json list \<times> string list \<times> state
       \<Rightarrow> json list \<times> string list \<times> state"
where
  "files_search_directory env filename_pattern dir_path acc =
     (case client_get env (snd (snd acc)) (GITHUB_URL @ ''/tree/main/'' @ dir_path) of
        (Inl e, st1) \<Rightarrow> (fst acc, fst (snd acc) @ [directory_error dir_path e], st1)
      | (Inr response, st1) \<Rightarrow>
          if status_code response = 404
          then (fst acc, fst (snd acc) @ [''Directory not found: '' @ dir_path], st1)
          else
            (case status_error response of
               Some e \<Rightarrow> (fst acc, fst (snd acc) @ [directory_error dir_path e], st1)
             | None \<Rightarrow>
                 (case files_rows_loop filename_pattern dir_path
                         (box_rows env (resp_text response)) (fst acc, fst (snd acc), []) of
                    (matches, search_errors, subdirs) \<Rightarrow>
                      files_search_subdirs env filename_pattern subdirs
                        (matches, search_errors, st1))))"
| "files_search_subdirs env filename_pattern [] acc = acc"
| "files_search_subdirs env filename_pattern (subdir # subdirs) acc =
     (if length (split_on CHR ''/'' subdir) \<le> 3
      then (case files_search_directory env filename_pattern subdir acc of
              acc1 \<Rightarrow> files_search_subdirs env filename_pattern subdirs acc1)
      else files_search_subdirs env filename_pattern subdirs acc)"
  by pat_completeness auto
termination
proof (relation "inv_image (less_than <*lex*> less_than)
        (\<lambda>x. case x of
                Inl (env, filename_pattern, dir_path, acc) \<Rightarrow> (dir_fuel dir_path, 0)
              | Inr (env, filename_pattern, subdirs, acc) \<Rightarrow>
                  (subdirs_fuel subdirs, length subdirs))", goal_cases)
  case 1
  then show ?case by auto
next
  case (2 env filename_pattern dir_path acc x y b xa ya xb yb)
  then have "files_rows_loop filename_pattern dir_path (box_rows env (resp_text b))
               (fst acc, fst (snd acc), []) = (xa, xb, yb)" by simp
  from files_rows_loop_subdirs[OF this]
  have "\<forall>subdir\<in>set yb. \<exists>name. subdir = dir_path @ ''/'' @ name" by simp
  from subdirs_fuel_below[OF this] show ?case by simp
next
  case 3
  then show ?case by (simp add: segments_def max_def)
next
  case 4
  then show ?case by (auto simp: max_def)
next
  case 5
  then show ?case by (auto simp: max_def)
qed

declare files_search_directory.simps [simp del]

text \<open>
  The tool. The searches of the key directories are gathered (run here one after the
  other, in their order); when nothing matched, the direct paths are searched in turn.
\<close>

definition files_key_dirs :: "string list" where
  "files_key_dirs = [''examples'', ''src'', ''docs'', ''test'', ''tests'']"

definition direct_paths :: "string list" where
  "direct_paths = [''examples'', ''src/agents'', ''docs'', ''test'', ''tests'']"

fun files_search_all ::
  "env \<Rightarrow> string \<Rightarrow> string list \<Rightarrow> json list \<times> string list \<times> state
     \<Rightarrow> json list \<times> string list \<times> state" where
  "files_search_all env filename_pattern [] acc = acc"
| "files_search_all env filename_pattern (directory # dirs) acc =
     files_search_all env filename_pattern dirs
       (files_search_directory env filename_pattern directory acc)"

definition files_debug_info :: "string \<Rightarrow> string list \<Rightarrow> json" where
  "files_debug_info filename_pattern search_errors =
     JObj [(''search_pattern'', JStr filename_pattern),
           (''directories_searched'', JArr (map JStr files_key_dirs)),
           (''errors'', if search_errors = [] then JNull else JArr (map JStr search_errors))]"

definition no_files_message :: "string \<Rightarrow> string list \<Rightarrow> string" where
  "no_files_message filename_pattern search_errors =
     (if search_errors \<noteq> []
      then ''No files found matching '' @ q @ filename_pattern @ q
           @ ''. There were errors during search that might have affected results.''
      else ''No files found matching '' @ q @ filename_pattern @ q
           @ ''. Try a different search pattern.'')"

definition search_files :: "env \<Rightarrow> state \<Rightarrow> string \<Rightarrow> reply \<times> state" where
  "search_files env st filename_pattern0 =
     (let filename_pattern = lower (strip filename_pattern0)
      in if filename_pattern = []
         then (Plain ''Please provide a filename pattern to search for.'', st)
         else
           (case get_github_structure env st of
              (structure0, st1) \<Rightarrow>
                (let search_errors0 =
                       (case gh_error structure0 of
                          Some e \<Rightarrow> [''Error getting repository structure: '' @ e]
                        | None \<Rightarrow> []);
                     root_files = (case gh_error structure0 of
                                     Some e \<Rightarrow> []
                                   | None \<Rightarrow> gh_files structure0);
                     acc1 = files_search_all env filename_pattern files_key_dirs
                              (root_matches filename_pattern root_files, search_errors0, st1);
                     acc2 = (if fst acc1 = []
                             then files_search_all env filename_pattern direct_paths acc1
                             else acc1)
                 in case acc2 of
                      (matches, search_errors, st2) \<Rightarrow>
                        if matches = []
                        then (Dumps (JObj
                                [(''error'',
                                  JStr (no_files_message filename_pattern search_errors)),
                                 (''debug_info'',
                                  files_debug_info filename_pattern search_errors)]),
                              st2)
                        else (Dumps (JObj
                                [(''matches'', JArr matches),
                                 (''debug_info'',
                                  files_debug_info filename_pattern search_errors)]),
                              st2))))"

text \<open>
  The corpus of a call of \<open>search_files\<close>: the file names that it compares with the
  pattern, each with its path. On a directory page they are the names of the rows with
  a link and an \<open>svg\<close> that are not directories, followed by those of the
  subdirectories that are searched; for the call they are the names of the root files,
  of the key directories and, when none of these matches, of the direct paths.
\<close>

definition row_files :: "string \<Rightarrow> row list \<Rightarrow> (string \<times> string) list" where
  "row_files dir_path items =
     concat (map (\<lambda>item.
                case row_link_text item of
                  None \<Rightarrow> []
                | Some name \<Rightarrow>
                    (case row_svg item of
                       None \<Rightarrow> []
                     | Some label \<Rightarrow>
                         if row_is_dir label then [] else [(name, dir_path @ ''/'' @ name)]))
             items)"

definition row_subdirs :: "string \<Rightarrow> row list \<Rightarrow> string list" where
  "row_subdirs dir_path items =
     concat (map (\<lambda>item.
                case row_link_text item of
                  None \<Rightarrow> []
                | Some name \<Rightarrow>
                    (case row_svg item of
                       None \<Rightarrow> []
                     | Some label \<Rightarrow>
                         if row_is_dir label then [dir_path @ ''/'' @ name] else []))
             items)"

lemma row_subdirs_form:
  "\<forall>subdir\<in>set (row_subdirs dir_path items). \<exists>name. subdir = dir_path @ ''/'' @ name"
  by (auto simp: row_subdirs_def split: option.splits if_splits)

function files_examined_directory ::
    "env \<Rightarrow> string \<Rightarrow> state \<Rightarrow> (string \<times> string) list \<times> state"
  and files_examined_subdirs ::
    "env \<Rightarrow> string list \<Rightarrow> state \<Rightarrow> (string \<times> string) list \<times> state"
where
  "files_examined_directory env dir_path st =
     (case client_get env st (GITHUB_URL @ ''/tree/main/'' @ dir_path) of
        (Inl e, st1) \<Rightarrow> ([], st1)
      | (Inr response, st1) \<Rightarrow>
          if status_code response = 404 then ([], st1)
          else
            (case status_error response of
               Some e \<Rightarrow> ([], st1)
             | None \<Rightarrow>
                 (case files_examined_subdirs env
                         (row_subdirs dir_path (box_rows env (resp_text response))) st1 of
                    (examined, st2) \<Rightarrow>
                      (row_files dir_path (box_rows env (resp_text response)) @ examined, st2))))"
| "files_examined_subdirs env [] st = ([], st)"
| "files_examined_subdirs env (subdir # subdirs) st =
     (if length (split_on CHR ''/'' subdir) \<le> 3
      then (case files_examined_directory env subdir st of
              (examined1, st1) \<Rightarrow>
                (case files_examined_subdirs env subdirs st1 of
                   (examined2, st2) \<Rightarrow> (examined1 @ examined2, st2)))
      else files_examined_subdirs env subdirs st)"
  by pat_completeness auto
termination
proof (relation "inv_image (less_than <*lex*> less_than)
        (\<lambda>x. case x of
                Inl (env, dir_path, st) \<Rightarrow> (dir_fuel dir_path, 0)
              | Inr (env, subdirs, st) \<Rightarrow> (subdirs_fuel subdirs, length subdirs))", goal_cases)
  case 1
  then show ?case by auto
next
  case (2 env dir_path st x y response)
  from subdirs_fuel_below[OF row_subdirs_form, of dir_path "box_rows env (resp_text response)"]
  show ?case by simp
next
  case 3
  then show ?case by (simp add: segments_def max_def)
next
  case 4
  then show ?case by (auto simp: max_def)
next
  case 5
  then show ?case by (auto simp: max_def)
qed

declare files_examined_directory.simps [simp del]

fun files_examined_all ::
  "env \<Rightarrow> string list \<Rightarrow> state \<Rightarrow> (string \<times> string) list \<times> state" where
  "files_examined_all env [] st = ([], st)"
| "files_examined_all env (directory # dirs) st =
     (case files_examined_directory env directory st of
        (examined1, st1) \<Rightarrow>
          (case files_examined_all env dirs st1 of
             (examined2, st2) \<Rightarrow> (examined1 @ examined2, st2)))"

definition name_matches :: "string \<Rightarrow> string \<times> string \<Rightarrow> bool" where
  \<comment> \<open>\<open>filename_pattern in name.lower()\<close>\<close>
  "name_matches filename_pattern = (\<lambda>(name, path). str_in filename_pattern (lower name))"

definition search_files_corpus :: "env \<Rightarrow> state \<Rightarrow> string \<Rightarrow> (string \<times> string) list" where
  "search_files_corpus env st filename_pattern =
     (case get_github_structure env st of
        (structure0, st1) \<Rightarrow>
          (let root = map (\<lambda>f. (entry_name f, entry_path f))
                        (case gh_error structure0 of Some e \<Rightarrow> []
                         | None \<Rightarrow> gh_files structure0)
           in case files_examined_all env files_key_dirs st1 of
                (examined1, st2) \<Rightarrow>
                  if filter (name_matches filename_pattern) (root @ examined1) = []
                  then root @ examined1 @ fst (files_examined_all env direct_paths st2)
                  else root @ examined1))"

section \<open>Example sites\<close>

text \<open>The state of a freshly started server: both caches empty, nothing requested.\<close>

definition initial_state :: state where
  "initial_state = \<lparr>doc_cache = Map.empty, github_cache = Map.empty, requests = []\<rparr>"

text \<open>
  A site that answers every request with the same one-article page, and the same site
  behind a network that drops the first request.
\<close>

definition welcome_page :: "node list" where
  "welcome_page = [Tag ''article'' [] 1 [NavigableString ''Welcome to the SDK'']]"

definition serving_env :: env where
  "serving_env =
     \<lparr>urljoin = (\<lambda>base u. base @ u),
      http_get = (\<lambda>n url. Inr \<lparr>status_code = 200,
                                  resp_text = ''<article>Welcome to the SDK</article>'',
                                  status_error = None\<rparr>),
      parse_html = (\<lambda>html. welcome_page),
      root_listing = (\<lambda>html. ([], [])),
      box_row_hrefs = (\<lambda>html. []),
      box_rows = (\<lambda>html. []),
      dir_listing = (\<lambda>dir_path html. ([], [], []))\<rparr>"

definition flaky_env :: env where
  "flaky_env =
     serving_env\<lparr>http_get := (\<lambda>n url. if n = 0 then Inl (RequestError ''timed out'')
                                        else http_get serving_env n url)\<rparr>"

text \<open>
  Three small pages: one with an \<open>h2\<close> before an \<open>h1\<close>, one with a rule between two
  paragraphs of a section, and one with a code block in a section.
\<close>

definition order_doc :: "node list" where
  "order_doc =
     [Tag ''h2'' [] 1 [NavigableString ''Setup''],
      Tag ''p'' [] 2 [NavigableString ''first''],
      Tag ''h1'' [] 3 [NavigableString ''Setup guide''],
      Tag ''p'' [] 4 [NavigableString ''second'']]"

definition rule_doc :: "node list" where
  "rule_doc =
     [Tag ''h2'' [] 1 [NavigableString ''Intro''],
      Tag ''p'' [] 2 [NavigableString ''a''],
      Tag ''hr'' [] 3 [],
      Tag ''p'' [] 4 [NavigableString ''b''],
      Tag ''h2'' [] 5 [NavigableString ''Next'']]"

definition code_doc :: "node list" where
  "code_doc =
     [Tag ''h2'' [] 1 [NavigableString ''Usage''],
      Tag ''p'' [] 2 [NavigableString ''Run it:''],
      Tag ''pre'' [] 3 [NavigableString ''x = 1''],
      Tag ''h2'' [] 4 [NavigableString ''Next'']]"

text \<open>
  The page of the specification's boundary scenario: \<open>H1\<close> (level 1), \<open>H2\<close> and \<open>H3\<close>
  (level 2), \<open>H4\<close> (level 1), with prose after each.
\<close>

definition boundary_doc :: "node list" where
  "boundary_doc =
     [Tag ''h1'' [] 1 [NavigableString ''Guide''],
      Tag ''p'' [] 2 [NavigableString ''about''],
      Tag ''h2'' [] 3 [NavigableString ''Install''],
      Tag ''p'' [] 4 [NavigableString ''pip''],
      Tag ''h2'' [] 5 [NavigableString ''Usage''],
      Tag ''p'' [] 6 [NavigableString ''run''],
      Tag ''h1'' [] 7 [NavigableString ''Appendix''],
      Tag ''p'' [] 8 [NavigableString ''extra'']]"

text \<open>
  The repository of the specification's crawl scenario: the directory \<open>src\<close> holds
  \<open>a.py\<close> and \<open>examples/\<close>, and \<open>src/examples\<close> holds \<open>b.py\<close> and \<open>nested/\<close>.
\<close>

definition crawl_env :: env where
  "crawl_env =
     serving_env\<lparr>dir_listing := (\<lambda>dir_path html.
       if dir_path = ''src''
       then ([(\<lparr>entry_name = ''a.py'', entry_path = ''src/a.py''\<rparr>, ''py'')],
             [\<lparr>entry_name = ''examples'', entry_path = ''src/examples''\<rparr>], [])
       else if dir_path = ''src/examples''
       then ([(\<lparr>entry_name = ''b.py'', entry_path = ''src/examples/b.py''\<rparr>, ''py'')],
             [\<lparr>entry_name = ''nested'', entry_path = ''src/examples/nested''\<rparr>], [])
       else ([], [], []))\<rparr>"

text \<open>
  A site whose page shows two links to the same page, and whose text is the same
  markup again (the text of a page that documents HTML), so that \<open>search_docs\<close> reads
  the two links from it.
\<close>

definition dup_page :: "node list" where
  "dup_page =
     [Tag ''article'' [] 1
        [NavigableString ''Welcome to the SDK'',
         Tag ''a'' [(''href'', ''agents'')] 2 [NavigableString ''Agents''],
         Tag ''a'' [(''href'', ''agents'')] 3 [NavigableString ''More on agents'']]]"

definition dup_env :: env where
  "dup_env = serving_env\<lparr>parse_html := (\<lambda>html. dup_page)\<rparr>"

text \<open>
  A site behind a \<open>urljoin\<close> that drops an empty fragment, as \<open>urllib.parse.urljoin\<close>
  does: it joins \<open>agents.html#\<close> to the documentation root as \<open>.../agents.html\<close>.
\<close>

definition frag_env :: env where
  "frag_env =
     serving_env\<lparr>urljoin := (\<lambda>base u. base @ (if u \<noteq> [] \<and> last u = CHR ''#'' then butlast u
                                            else u))\<rparr>"

text \<open>
  A repository with a root file \<open>README.md\<close>, and directory pages that each show a
  file \<open>demo.py\<close>, a directory \<open>tools\<close> and a row without link.
\<close>

definition repo_env :: env where
  "repo_env =
     serving_env\<lparr>root_listing := (\<lambda>html.
                     ([\<lparr>entry_name = ''README.md'', entry_path = ''README.md''\<rparr>],
                      [\<lparr>entry_name = ''examples'', entry_path = ''examples''\<rparr>])),
                 box_row_hrefs := (\<lambda>html.
                     [Some (blob_prefix @ ''examples/demo.py''), Some (blob_prefix @ ''tools''),
                      None]),
                 box_rows := (\<lambda>html.
                     [\<lparr>row_svg = Some (Some ''File''), row_link_text = Some ''demo.py''\<rparr>,
                      \<lparr>row_svg = Some (Some ''Directory''), row_link_text = Some ''tools''\<rparr>,
                      \<lparr>row_svg = Some None, row_link_text = None\<rparr>])\<rparr>"

section \<open>Properties of the string functions\<close>

lemma find_from_Some:
  "find_from s sub = Some i \<Longrightarrow> i + length sub \<le> length s \<and> take (length sub) (drop i s) = sub"
proof (induction s arbitrary: i)
  case Nil
  then show ?case by (simp split: if_splits)
next
  case (Cons c cs)
  show ?case
  proof (cases "prefix sub (c # cs)")
    case True
    with Cons.prems have "i = 0" by simp
    with True prefix_length_le[OF True] show ?thesis by (auto simp: prefix_def)
  next
    case False
    with Cons.prems obtain j where j: "find_from cs sub = Some j" "i = Suc j" by auto
    with Cons.IH[OF j(1)] show ?thesis by simp
  qed
qed

lemma find_from_least:
  "find_from s sub = Some i \<Longrightarrow> j < i \<Longrightarrow> \<not> prefix sub (drop j s)"
proof (induction s arbitrary: i j)
  case Nil
  then show ?case by (simp split: if_splits)
next
  case (Cons c cs)
  show ?case
  proof (cases "prefix sub (c # cs)")
    case True
    with Cons.prems show ?thesis by simp
  next
    case False
    with Cons.prems obtain k where k: "find_from cs sub = Some k" "i = Suc k" by auto
    show ?thesis
    proof (cases j)
      case 0
      with False show ?thesis by simp
    next
      case (Suc j')
      with Cons.prems k have "j' < k" by simp
      from Cons.IH[OF k(1) this] Suc show ?thesis by simp
    qed
  qed
qed

lemma find_from_None: "find_from s sub = None \<longleftrightarrow> \<not> sublist sub s"
proof (induction s)
  case Nil
  then show ?case by simp
next
  case (Cons c cs)
  then show ?case by (simp add: sublist_Cons_right)
qed

lemma str_in_find_from: "str_in sub s \<Longrightarrow> \<exists>i. find_from s sub = Some i"
  using find_from_None[of s sub] by (cases "find_from s sub") (auto simp: str_in_def)

lemma length_lower: "length (lower s) = length s"
  by (simp add: lower_def)

lemma snippet_eq:
  assumes "find_from (lower content) term = Some i"
  shows "snippet content term =
           take (min (length content) (i + length term + 100) - (i - 100)) (drop (i - 100) content)"
proof -
  from find_from_Some[OF assms] have le: "i + length term \<le> length content"
    by (simp add: length_lower)
  have f: "find_str (lower content) term = int i" using assms by (simp add: find_str_def)
  have s: "snippet_start content term = int (i - 100)"
    unfolding snippet_start_def f by (simp add: max_def) 
  have e: "snippet_end content term = int (min (length content) (i + length term + 100))"
    unfolding snippet_end_def f by (simp add: min_def)
  have lo: "slice_bound (length content) (int (i - 100)) = i - 100"
    using le by (simp add: slice_bound_def)
  have hi: "slice_bound (length content) (int (min (length content) (i + length term + 100)))
              = min (length content) (i + length term + 100)"
    by (simp add: slice_bound_def)
  show ?thesis unfolding snippet_def s e slice_def lo hi Let_def ..
qed

section \<open>Snippets of the search results\<close>

text \<open>
  Claim C1, as amended. When a query term occurs in the lowercased document, the snippet
  is the part of the document from 100 characters before the first occurrence of the
  term (offset \<open>i\<close>) to 100 characters after its end, clipped to the document: it
  starts at the start of the document when \<open>i < 100\<close>, it ends at the end of the
  document when \<open>i + len(term) + 100 > N\<close>, and its length is at most
  \<open>200 + len(term)\<close>, not 200. The result carries it between two \<open>...\<close>.
\<close>

theorem snippet_bound:
  assumes "str_in term (lower content)"
  shows "\<exists>i. find_str (lower content) term = int i
           \<and> i + length term \<le> length content
           \<and> take (length term) (drop i (lower content)) = term
           \<and> snippet content term =
               take (min (length content) (i + length term + 100) - (i - 100))
                 (drop (i - 100) content)
           \<and> length (snippet content term) \<le> 200 + length term
           \<and> (i < 100 \<longrightarrow> prefix (snippet content term) content)
           \<and> (length content < i + length term + 100 \<longrightarrow> suffix (snippet content term) content)"
proof -
  from str_in_find_from[OF assms] obtain i where i: "find_from (lower content) term = Some i" ..
  from find_from_Some[OF i] have le: "i + length term \<le> length content"
    and occ: "take (length term) (drop i (lower content)) = term"
    by (simp_all add: length_lower)
  note eq = snippet_eq[OF i]
  have f: "find_str (lower content) term = int i" using i by (simp add: find_str_def)
  have len: "length (snippet content term) \<le> 200 + length term"
    unfolding eq by simp
  have pre: "prefix (snippet content term) content" if "i < 100"
    using that unfolding eq by (simp add: take_is_prefix)
  have suf: "suffix (snippet content term) content" if "length content < i + length term + 100"
    using that le unfolding eq by (simp add: suffix_drop)
  from f le occ eq len pre suf show ?thesis by blast
qed

theorem snippet_bound_witness:
  "str_in ''agent'' (lower ''The Agent class'')
   \<and> find_str (lower ''The Agent class'') ''agent'' = 4
   \<and> snippet ''The Agent class'' ''agent'' = ''The Agent class''"
proof -
  have h: "str_in ''agent'' (lower ''The Agent class'')" by code_simp
  from snippet_bound[OF h] obtain i where
    "find_str (lower ''The Agent class'') ''agent'' = int i"
    "snippet ''The Agent class'' ''agent'' =
       take (min (length ''The Agent class'') (i + length ''agent'' + 100) - (i - 100))
         (drop (i - 100) ''The Agent class'')"
    by blast
  moreover have "find_str (lower ''The Agent class'') ''agent'' = 4" by code_simp
  ultimately show ?thesis using h by simp
qed

text \<open>
  A document of 201 characters with the one-character term in the middle: the snippet
  is the whole document, 201 characters long.
\<close>

theorem snippet_bound_counterexample:
  "str_in ''x'' (lower (replicate 100 CHR ''a'' @ ''x'' @ replicate 100 CHR ''a''))
   \<and> find_str (lower (replicate 100 CHR ''a'' @ ''x'' @ replicate 100 CHR ''a'')) ''x'' = 100
   \<and> length (snippet (replicate 100 CHR ''a'' @ ''x'' @ replicate 100 CHR ''a'') ''x'') = 201"
  by code_simp

section \<open>The per-document block of the searches\<close>

lemma docs_term_loop_first:
  "\<forall>t\<in>set pre. \<not> str_in t (lower content) \<Longrightarrow> str_in term (lower content) \<Longrightarrow>
   docs_term_loop url title content (pre @ term # post) results
     = results @ [docs_result url title content term]"
  by (induction pre) auto

lemma github_term_loop_first:
  "\<forall>t\<in>set pre. \<not> str_in t (lower content) \<Longrightarrow> str_in term (lower content) \<Longrightarrow>
   github_term_loop path content (pre @ term # post) results
     = results @ [github_result path content term]"
  by (induction pre) auto

lemma length_docs_term_loop:
  "length (docs_term_loop url title content qs results) \<le> Suc (length results)"
  by (induction qs) auto

lemma length_github_term_loop:
  "length (github_term_loop path content qs results) \<le> Suc (length results)"
  by (induction qs) auto

lemma length_docs_search_page:
  "length (docs_search_page url title content qs results) \<le> Suc (length results)"
  by (simp add: docs_search_page_def length_docs_term_loop)

lemma length_github_search_file:
  "length (github_search_file path content qs results) \<le> Suc (length results)"
  by (simp add: github_search_file_def length_github_term_loop)

lemma length_docs_links_loop:
  "length (fst (docs_links_loop env qs links (results, st))) \<le> length results + length links"
proof (induction links arbitrary: results st)
  case Nil
  then show ?case by simp
next
  case (Cons link links)
  let ?u = "urljoin env DOCS_URL link"
  obtain r st1 where f: "fetch_doc_page env st ?u = (r, st1)" by (cases "fetch_doc_page env st ?u")
  show ?case
  proof (cases r)
    case (Inl e)
    with f Cons.IH[of results st1] show ?thesis by simp
  next
    case (Inr c)
    with f Cons.IH[of "docs_search_page ?u link c qs results" st1]
      length_docs_search_page[of ?u link c qs results]
    show ?thesis by simp
  qed
qed

lemma search_docs_empty: "lower (strip query) = [] \<Longrightarrow>
    search_docs env st query = (Plain ''Please provide a search query.'', st)"
  by (simp add: search_docs_def)

lemma search_docs_fetch_failed:
  "lower (strip query) \<noteq> [] \<Longrightarrow> fetch_doc_page env st DOCS_URL = (Inl e, st1) \<Longrightarrow>
   search_docs env st query = (Plain (''Error searching documentation: '' @ str_exn e), st1)"
  by (simp add: search_docs_def)

lemma search_docs_searched:
  "lower (strip query) \<noteq> [] \<Longrightarrow> fetch_doc_page env st DOCS_URL = (Inr content, st1) \<Longrightarrow>
   docs_links_loop env (split_ws (lower (strip query)))
     (take 20 (doc_links (parse_html env content)))
     (docs_search_page DOCS_URL ''Main Page'' content (split_ws (lower (strip query))) [], st1)
     = (rs, st2) \<Longrightarrow>
   search_docs env st query =
     (if rs = []
      then (Plain (''No results found for your query: '' @ q @ lower (strip query) @ q
                   @ ''. Try a different search term or check the documentation index.''), st2)
      else (Dumps (JArr rs), st2))"
  by (simp add: search_docs_def Let_def)

lemma search_docs_at_most_21:
  assumes "search_docs env st query = (Dumps (JArr rs), st')"
  shows "length rs \<le> 21"
proof -
  let ?q = "lower (strip query)"
  from assms search_docs_empty[of query env st] have ne: "?q \<noteq> []" by auto
  obtain r st1 where f: "fetch_doc_page env st DOCS_URL = (r, st1)"
    by (cases "fetch_doc_page env st DOCS_URL")
  from assms search_docs_fetch_failed[OF ne, of env st _ st1] f obtain content
    where r: "r = Inr content"
    by (cases r) auto
  let ?links = "take 20 (doc_links (parse_html env content))"
  let ?r0 = "docs_search_page DOCS_URL ''Main Page'' content (split_ws ?q) []"
  obtain rs' st2 where l: "docs_links_loop env (split_ws ?q) ?links (?r0, st1) = (rs', st2)"
    by (cases "docs_links_loop env (split_ws ?q) ?links (?r0, st1)")
  from search_docs_searched[OF ne f[unfolded r] l] assms have eq: "rs = rs'"
    by (simp split: if_splits)
  from length_docs_links_loop[of env "split_ws ?q" ?links ?r0 st1] l
  have a: "length rs' \<le> length ?r0 + length ?links" by simp
  have b: "length ?r0 \<le> Suc 0"
    using length_docs_search_page[of DOCS_URL "''Main Page''" content "split_ws ?q" "[]"] by simp
  have c: "length ?links \<le> 20" by simp
  from a b c have "length rs' \<le> 21" by linarith
  with eq show ?thesis by simp
qed

section \<open>Empty queries\<close>

lemma strip_all_space: "\<forall>c\<in>set s. is_space c \<Longrightarrow> strip s = []"
proof -
  assume "\<forall>c\<in>set s. is_space c"
  then have d: "dropWhile is_space s = []" by simp
  show ?thesis unfolding strip_def d by simp
qed

text \<open>
  Claim C8. A query that is empty or made of whitespace only is answered by
  \<open>search_docs\<close> and \<open>search_github\<close> with the request for a query, and the state
  (the two caches and the log of requests) is the one before the call: nothing was
  fetched.
\<close>

theorem empty_query_rejected:
  assumes "\<forall>c\<in>set query. is_space c"
  shows "search_docs env st query = (Plain ''Please provide a search query.'', st)
       \<and> search_github env st query = (Plain ''Please provide a search query.'', st)"
  using strip_all_space[OF assms] by (simp add: search_docs_def search_github_def lower_def)

theorem empty_query_rejected_witness:
  "search_docs serving_env initial_state [CHR '' '', CHR 0x09, CHR 0x0A]
     = (Plain ''Please provide a search query.'', initial_state)
   \<and> search_github serving_env initial_state [CHR '' '', CHR 0x09, CHR 0x0A]
     = (Plain ''Please provide a search query.'', initial_state)
   \<and> requests initial_state = []"
proof -
  have "\<forall>c\<in>set [CHR '' '', CHR 0x09, CHR 0x0A]. is_space c" by (simp add: is_space_def)
  from empty_query_rejected[OF this, of serving_env initial_state]
  show ?thesis by (simp add: initial_state_def)
qed

section \<open>The fetch cache\<close>

lemma fetch_doc_page_hit:
  "doc_cache st url = Some c \<Longrightarrow> fetch_doc_page env st url = (Inr c, st)"
  by (simp add: fetch_doc_page_def)

lemma fetch_github_file_hit:
  "github_cache st path = Some c \<Longrightarrow> fetch_github_file env st path = (Inr c, st)"
  by (simp add: fetch_github_file_def)

lemma fetch_doc_page_Inr:
  assumes "fetch_doc_page env st url = (Inr c, st1)"
  shows "doc_cache st1 url = Some c \<and> length (requests st1) \<le> Suc (length (requests st))"
proof (cases "doc_cache st url")
  case (Some c')
  with assms show ?thesis by (simp add: fetch_doc_page_def)
next
  case None
  with assms show ?thesis
    by (auto simp: fetch_doc_page_def client_get_def Let_def
             split: sum.splits option.splits)
qed

lemma fetch_doc_page_Inl:
  assumes "fetch_doc_page env st url = (Inl e, st1)"
  shows "doc_cache st url = None \<and> st1 = st\<lparr>requests := requests st @ [if startswith url ''http'' then url else urljoin env DOCS_URL url]\<rparr>"
proof (cases "doc_cache st url")
  case (Some c')
  with assms show ?thesis by (simp add: fetch_doc_page_def)
next
  case None
  with assms show ?thesis
    by (auto simp: fetch_doc_page_def client_get_def Let_def
             split: sum.splits option.splits)
qed

lemma fetch_doc_page_miss_requests:
  "doc_cache st url = None \<Longrightarrow>
   requests (snd (fetch_doc_page env st url)) = requests st @ [if startswith url ''http'' then url else urljoin env DOCS_URL url]"
  by (auto simp: fetch_doc_page_def client_get_def Let_def
           split: sum.splits option.splits)

lemma fetch_github_file_Inr:
  assumes "fetch_github_file env st path = (Inr c, st1)"
  shows "github_cache st1 path = Some c \<and> length (requests st1) \<le> Suc (length (requests st))"
proof (cases "github_cache st path")
  case (Some c')
  with assms show ?thesis by (simp add: fetch_github_file_def)
next
  case None
  with assms show ?thesis
    by (auto simp: fetch_github_file_def client_get_def Let_def
             split: sum.splits option.splits)
qed

lemma fetch_github_file_Inl:
  assumes "fetch_github_file env st path = (Inl e, st1)"
  shows "github_cache st path = None
       \<and> st1 = st\<lparr>requests := requests st @ [urljoin env RAW_GITHUB_URL path]\<rparr>"
proof (cases "github_cache st path")
  case (Some c')
  with assms show ?thesis by (simp add: fetch_github_file_def)
next
  case None
  with assms show ?thesis
    by (auto simp: fetch_github_file_def client_get_def Let_def
             split: sum.splits option.splits)
qed

lemma fetch_github_file_miss_requests:
  "github_cache st path = None \<Longrightarrow>
   requests (snd (fetch_github_file env st path)) = requests st @ [urljoin env RAW_GITHUB_URL path]"
  by (auto simp: fetch_github_file_def client_get_def Let_def
           split: sum.splits option.splits)


lemma main_content_welcome_page:
  "main_content welcome_page = Some (Tag ''article'' [] 1 [NavigableString ''Welcome to the SDK''])"
  by code_simp

lemma get_text_lines_welcome:
  "get_text_lines (Tag ''article'' [] (Suc 0) [NavigableString ''Welcome to the SDK''])
     = ''Welcome to the SDK''"
  by code_simp


section \<open>Finding the heading of a section\<close>

lemma heading_matches_iff:
  "heading_matches section_lower heading \<longleftrightarrow> str_in section_lower (lower (get_text heading))"
  by (auto simp: heading_matches_def str_in_def Let_def)

lemma first_match_in_Some:
  "first_match_in section_lower hs = Some h \<Longrightarrow>
   \<exists>pre post. hs = pre @ h # post \<and> heading_matches section_lower (snd h)
     \<and> (\<forall>g\<in>set pre. \<not> heading_matches section_lower (snd g))"
proof (induction hs)
  case Nil
  then show ?case by simp
next
  case (Cons x hs)
  show ?case
  proof (cases "heading_matches section_lower (snd x)")
    case True
    with Cons.prems have "h = x" by simp
    with True have "x # hs = [] @ h # hs \<and> heading_matches section_lower (snd h)
        \<and> (\<forall>g\<in>set []. \<not> heading_matches section_lower (snd g))" by simp
    then show ?thesis by blast
  next
    case False
    with Cons.prems have "first_match_in section_lower hs = Some h" by simp
    from Cons.IH[OF this] obtain pre post where
      p: "hs = pre @ h # post" "heading_matches section_lower (snd h)"
         "\<forall>g\<in>set pre. \<not> heading_matches section_lower (snd g)" by blast
    with False have "x # hs = (x # pre) @ h # post \<and> heading_matches section_lower (snd h)
        \<and> (\<forall>g\<in>set (x # pre). \<not> heading_matches section_lower (snd g))" by simp
    then show ?thesis by blast
  qed
qed

lemma first_match_in_None:
  "first_match_in section_lower hs = None \<longleftrightarrow>
   (\<forall>g\<in>set hs. \<not> heading_matches section_lower (snd g))"
  by (induction hs) auto

lemma first_match_Some:
  "first_match soup section_lower tags = Some h \<Longrightarrow>
   \<exists>k pre post. k < length tags \<and> find_all (tags ! k) soup = pre @ h # post
     \<and> heading_matches section_lower (snd h)
     \<and> (\<forall>g\<in>set pre. \<not> heading_matches section_lower (snd g))
     \<and> (\<forall>j<k. \<forall>g\<in>set (find_all (tags ! j) soup). \<not> heading_matches section_lower (snd g))"
proof (induction tags)
  case Nil
  then show ?case by simp
next
  case (Cons tag tags)
  show ?case
  proof (cases "first_match_in section_lower (find_all tag soup)")
    case (Some x)
    with Cons.prems have "x = h" by simp
    with Some first_match_in_Some[of section_lower "find_all tag soup" h] obtain pre post where
      "find_all tag soup = pre @ h # post" "heading_matches section_lower (snd h)"
      "\<forall>g\<in>set pre. \<not> heading_matches section_lower (snd g)" by blast
    then have "0 < length (tag # tags) \<and> find_all ((tag # tags) ! 0) soup = pre @ h # post
      \<and> heading_matches section_lower (snd h)
      \<and> (\<forall>g\<in>set pre. \<not> heading_matches section_lower (snd g))
      \<and> (\<forall>j<0. \<forall>g\<in>set (find_all ((tag # tags) ! j) soup).
            \<not> heading_matches section_lower (snd g))" by simp
    then show ?thesis by blast
  next
    case None
    with Cons.prems have "first_match soup section_lower tags = Some h" by simp
    from Cons.IH[OF this] obtain k pre post where
      k: "k < length tags" "find_all (tags ! k) soup = pre @ h # post"
         "heading_matches section_lower (snd h)"
         "\<forall>g\<in>set pre. \<not> heading_matches section_lower (snd g)"
         "\<forall>j<k. \<forall>g\<in>set (find_all (tags ! j) soup). \<not> heading_matches section_lower (snd g)"
      by blast
    from None have n: "\<forall>g\<in>set (find_all tag soup). \<not> heading_matches section_lower (snd g)"
      by (simp add: first_match_in_None)
    have "\<forall>j<Suc k. \<forall>g\<in>set (find_all ((tag # tags) ! j) soup).
            \<not> heading_matches section_lower (snd g)"
    proof (intro allI impI)
      fix j assume "j < Suc k"
      then show "\<forall>g\<in>set (find_all ((tag # tags) ! j) soup).
                   \<not> heading_matches section_lower (snd g)"
        using n k(5) by (cases j) auto
    qed
    with k have "Suc k < length (tag # tags)
      \<and> find_all ((tag # tags) ! Suc k) soup = pre @ h # post
      \<and> heading_matches section_lower (snd h)
      \<and> (\<forall>g\<in>set pre. \<not> heading_matches section_lower (snd g))
      \<and> (\<forall>j<Suc k. \<forall>g\<in>set (find_all ((tag # tags) ! j) soup).
            \<not> heading_matches section_lower (snd g))" by simp
    then show ?thesis by blast
  qed
qed

lemma first_match_None:
  "first_match soup section_lower tags = None \<longleftrightarrow>
   (\<forall>tag\<in>set tags. \<forall>g\<in>set (find_all tag soup). \<not> heading_matches section_lower (snd g))"
proof (induction tags)
  case Nil
  then show ?case by simp
next
  case (Cons tag tags)
  show ?case
  proof (cases "first_match_in section_lower (find_all tag soup)")
    case None
    with Cons.IH first_match_in_None[of section_lower "find_all tag soup"] show ?thesis by simp
  next
    case (Some x)
    with first_match_in_None[of section_lower "find_all tag soup"]
    have "\<not> (\<forall>g\<in>set (find_all tag soup). \<not> heading_matches section_lower (snd g))" by simp
    with Some show ?thesis by simp
  qed
qed

text \<open>
  Claim C2, as amended. Phase 1 scans the headings level by level: all \<open>h1\<close> in
  document order, then all \<open>h2\<close>, and so on to \<open>h6\<close>. The heading it accepts is the
  first one in that order whose lowercased text contains (or equals) the lowercased
  section name: no heading of a lower-numbered level matches, and no heading of the same
  level that stands before it in the document matches. It finds nothing exactly when no
  heading matches.
\<close>

theorem first_match_by_level:
  "(first_match soup section_lower heading_tags = Some h \<longrightarrow>
      (\<exists>k pre post. k < length heading_tags
         \<and> find_all (heading_tags ! k) soup = pre @ h # post
         \<and> str_in section_lower (lower (get_text (snd h)))
         \<and> (\<forall>g\<in>set pre. \<not> str_in section_lower (lower (get_text (snd g))))
         \<and> (\<forall>j<k. \<forall>g\<in>set (find_all (heading_tags ! j) soup).
               \<not> str_in section_lower (lower (get_text (snd g))))))
   \<and> (first_match soup section_lower heading_tags = None \<longleftrightarrow>
        (\<forall>tag\<in>set heading_tags. \<forall>g\<in>set (find_all tag soup).
           \<not> str_in section_lower (lower (get_text (snd g)))))"
  using first_match_Some[of soup section_lower heading_tags h]
    first_match_None[of soup section_lower heading_tags]
  unfolding heading_matches_iff by blast

theorem first_match_by_level_witness:
  "first_match order_doc ''setup'' heading_tags
     = Some ([2], Tag ''h1'' [] 3 [NavigableString ''Setup guide''])
   \<and> (\<exists>k pre post. k < length heading_tags
         \<and> find_all (heading_tags ! k) order_doc
             = pre @ ([2], Tag ''h1'' [] 3 [NavigableString ''Setup guide'']) # post
         \<and> str_in ''setup'' (lower (get_text (Tag ''h1'' [] 3 [NavigableString ''Setup guide'']))))"
proof -
  have h: "first_match order_doc ''setup'' heading_tags
             = Some ([2], Tag ''h1'' [] 3 [NavigableString ''Setup guide''])"
    by code_simp
  from first_match_by_level[THEN conjunct1, THEN mp, OF h] h show ?thesis
    by (simp only: snd_conv) blast
qed

text \<open>
  A page whose first heading in document order is an \<open>h2\<close> ``Setup'' and whose third
  node is an \<open>h1\<close> ``Setup guide'': both match \<open>setup\<close>, and the later one is chosen.
\<close>

theorem first_match_by_level_counterexample:
  "find_heading order_doc (lower ''Setup'')
     = Some ([2], Tag ''h1'' [] 3 [NavigableString ''Setup guide''])
   \<and> soup_descendants order_doc ! 0 = ([0], Tag ''h2'' [] 1 [NavigableString ''Setup''])
   \<and> soup_descendants order_doc ! 4 = ([2], Tag ''h1'' [] 3 [NavigableString ''Setup guide''])
   \<and> heading_matches (lower ''Setup'') (Tag ''h2'' [] 1 [NavigableString ''Setup''])"
  by code_simp

section \<open>The boundary walk of a section\<close>

text \<open>
  A sibling that the walk passes: it is true (a tag, or a string that is not empty), and
  when its name has the shape of a heading's, \<open>int\<close> reads a level above the level of
  the matched heading from it.
\<close>

lemma section_walk_append:
  assumes "\<forall>n\<in>set taken. truthy n \<and> (looks_like_heading n \<longrightarrow>
             (\<exists>lv. name_level (the (node_name n)) = Inr lv \<and> heading_level < lv))"
  shows "section_walk heading_level (taken @ rest) content
           = section_walk heading_level rest (fold append_text taken content)"
  using assms
proof (induction taken arbitrary: content)
  case Nil
  then show ?case by simp
next
  case (Cons n taken)
  from Cons.prems have t: "truthy n"
    and h: "looks_like_heading n \<longrightarrow>
              (\<exists>lv. name_level (the (node_name n)) = Inr lv \<and> heading_level < lv)"
    and r: "\<forall>n\<in>set taken. truthy n \<and> (looks_like_heading n \<longrightarrow>
             (\<exists>lv. name_level (the (node_name n)) = Inr lv \<and> heading_level < lv))"
    by simp_all
  have "section_walk heading_level ((n # taken) @ rest) content
          = section_walk heading_level (taken @ rest) (append_text n content)"
  proof (cases "looks_like_heading n")
    case True
    with h obtain lv where "name_level (the (node_name n)) = Inr lv" "heading_level < lv"
      by blast
    with t True show ?thesis by simp
  next
    case False
    with t show ?thesis by simp
  qed
  with Cons.IH[OF r, of "append_text n content"] show ?case by simp
qed

lemma section_walk_stops_at_boundary:
  assumes "\<forall>n\<in>set taken. truthy n \<and> (looks_like_heading n \<longrightarrow>
             (\<exists>lv. name_level (the (node_name n)) = Inr lv \<and> heading_level < lv))"
    and "looks_like_heading b" and "name_level (the (node_name b)) = Inr lv"
    and "lv \<le> heading_level"
  shows "section_walk heading_level (taken @ b # rest) content
           = Inr (fold append_text taken content, Some b)"
proof -
  from assms(2) have "truthy b" by (cases b) (simp_all add: looks_like_heading_def)
  with assms(2-4) have "section_walk heading_level (b # rest) (fold append_text taken content)
           = Inr (fold append_text taken content, Some b)" by simp
  with section_walk_append[OF assms(1)] show ?thesis by simp
qed

lemma section_walk_to_end:
  assumes "\<forall>n\<in>set taken. truthy n \<and> (looks_like_heading n \<longrightarrow>
             (\<exists>lv. name_level (the (node_name n)) = Inr lv \<and> heading_level < lv))"
  shows "section_walk heading_level taken content = Inr (fold append_text taken content, None)"
  using section_walk_append[OF assms, of "[]" content] by simp

lemma section_walk_raises:
  assumes "\<forall>n\<in>set taken. truthy n \<and> (looks_like_heading n \<longrightarrow>
             (\<exists>lv. name_level (the (node_name n)) = Inr lv \<and> heading_level < lv))"
    and "looks_like_heading b" and "name_level (the (node_name b)) = Inl e"
  shows "section_walk heading_level (taken @ b # rest) content = Inl e"
proof -
  from assms(2) have "truthy b" by (cases b) (simp_all add: looks_like_heading_def)
  with assms(2,3) have "section_walk heading_level (b # rest) (fold append_text taken content)
           = Inl e" by simp
  with section_walk_append[OF assms(1)] show ?thesis by simp
qed

lemma fold_append_text_prefix: "prefix content (fold append_text taken content)"
proof (induction taken arbitrary: content)
  case Nil
  then show ?case by simp
next
  case (Cons n taken)
  have "prefix content (append_text n content)"
    by (cases n) simp_all
  with Cons.IH[of "append_text n content"] show ?case
    by (auto intro: prefix_order.trans)
qed

lemma section_walk_prefix:
  "section_walk heading_level sibs content = Inr (content', nh) \<Longrightarrow> prefix content content'"
proof (induction sibs arbitrary: content)
  case Nil
  then show ?case by simp
next
  case (Cons n sibs)
  have p: "prefix content (append_text n content)" by (cases n) simp_all
  show ?case
  proof (cases "truthy n")
    case False
    with Cons.prems show ?thesis by simp
  next
    case True
    show ?thesis
    proof (cases "looks_like_heading n")
      case False
      with True Cons.prems
      have "section_walk heading_level sibs (append_text n content) = Inr (content', nh)"
        by simp
      from Cons.IH[OF this] p show ?thesis by (auto intro: prefix_order.trans)
    next
      case h: True
      show ?thesis
      proof (cases "name_level (the (node_name n))")
        case (Inl e)
        with True h Cons.prems show ?thesis by simp
      next
        case (Inr lv)
        show ?thesis
        proof (cases "lv \<le> heading_level")
          case True
          with \<open>truthy n\<close> h Inr Cons.prems show ?thesis by simp
        next
          case False
          with \<open>truthy n\<close> h Inr Cons.prems
          have "section_walk heading_level sibs (append_text n content) = Inr (content', nh)"
            by simp
          from Cons.IH[OF this] p show ?thesis by (auto intro: prefix_order.trans)
        qed
      qed
    qed
  qed
qed

text \<open>
  The boundary scenario of the specification: on the page \<open>H1\<close>, \<open>H2\<close>, \<open>H3\<close>, \<open>H4\<close> with
  prose after each, the section of \<open>H2\<close> is the prose before \<open>H3\<close>, and the section of
  \<open>H1\<close> runs up to \<open>H4\<close>.
\<close>

lemma boundary_scenario:
  "extract_section boundary_doc ''Install'' ''u''
     = Inr (JObj [(''section'', JStr ''Install''), (''content'', JStr ''pip''),
                  (''code_examples'', JArr []), (''page_url'', JStr ''u'')])
   \<and> extract_section boundary_doc ''Guide'' ''u''
     = Inr (JObj [(''section'', JStr ''Guide''),
                  (''content'', JStr (join [CHR 0x0A]
                                        [''about'', ''Install'', ''pip'', ''Usage'', ''run''])),
                  (''code_examples'', JArr []), (''page_url'', JStr ''u'')])"
  by code_simp

text \<open>
  Claim C3 fails on a page with a horizontal rule in the section. The name \<open>hr\<close> has two
  characters and starts with \<open>h\<close>, so the walk takes it for a heading and calls
  \<open>int('r')\<close>: the walk raises \<open>ValueError\<close> at the rule instead of appending the
  sibling's text and going on to the next heading, and \<open>get_section\<close> answers with the
  error message.
\<close>

theorem section_walk_rule_raises:
  "section_walk 2 (next_siblings rule_doc [0]) []
     = Inl (ValueError (''invalid literal for int() with base 10: '' @ q @ ''r'' @ q))
   \<and> extract_section rule_doc ''Intro'' ''u''
     = Inl (ValueError (''invalid literal for int() with base 10: '' @ q @ ''r'' @ q))
   \<and> fst (get_section (serving_env\<lparr>parse_html := (\<lambda>html. rule_doc)\<rparr>) initial_state
            ''guide'' ''Intro'')
     = Plain (''Error retrieving section: invalid literal for int() with base 10: ''
              @ q @ ''r'' @ q)"
  by code_simp

section \<open>Code blocks of a section\<close>

lemma code_examples_loop_eq:
  "code_examples_loop found_heading (Some nh) blocks acc
     = acc @ map get_text
         (filter (\<lambda>b. sourceline found_heading < sourceline b \<and> sourceline b < sourceline nh)
            blocks)"
  by (induction blocks arbitrary: acc) auto

lemma code_examples_loop_None:
  "code_examples_loop found_heading None blocks acc = acc"
  by (induction blocks arbitrary: acc) auto

text \<open>
  Claim C9, as amended. A \<open>pre\<close> block that the sibling walk reaches is treated as any
  other tag: its stripped text is appended to \<open>content\<close>. When the walk ended at a
  boundary heading, \<open>code_examples\<close> is the text of the \<open>pre\<close> blocks of the page, in
  document order, whose source line lies strictly between the source line of the matched
  heading and that of the boundary heading.
\<close>

theorem pre_blocks_of_section:
  "((\<forall>n\<in>set taken. truthy n \<and> (looks_like_heading n \<longrightarrow>
         (\<exists>lv. name_level (the (node_name n)) = Inr lv \<and> heading_level < lv)))
     \<and> section_walk heading_level (taken @ Tag ''pre'' a l cs # rest) [] = Inr (content, nh)
     \<longrightarrow> get_text_strip (Tag ''pre'' a l cs) \<in> set content)
   \<and> section_code_examples soup found_heading (Some next_heading)
       = map get_text
           (filter (\<lambda>b. sourceline found_heading < sourceline b
                         \<and> sourceline b < sourceline next_heading)
              (map snd (find_all ''pre'' soup)))"
proof (intro conjI impI)
  assume a: "(\<forall>n\<in>set taken. truthy n \<and> (looks_like_heading n \<longrightarrow>
         (\<exists>lv. name_level (the (node_name n)) = Inr lv \<and> heading_level < lv)))
     \<and> section_walk heading_level (taken @ Tag ''pre'' a l cs # rest) [] = Inr (content, nh)"
  let ?pre = "Tag ''pre'' a l cs"
  let ?c = "fold append_text taken []"
  have nh: "\<not> looks_like_heading ?pre" by (simp add: looks_like_heading_def)
  from a section_walk_append[of taken heading_level "?pre # rest" "[]"]
  have "section_walk heading_level (?pre # rest) ?c = Inr (content, nh)" by simp
  with nh have "section_walk heading_level rest (?c @ [get_text_strip ?pre]) = Inr (content, nh)"
    by simp
  from section_walk_prefix[OF this] show "get_text_strip ?pre \<in> set content"
    by (auto simp: prefix_def)
next
  show "section_code_examples soup found_heading (Some next_heading)
       = map get_text
           (filter (\<lambda>b. sourceline found_heading < sourceline b
                         \<and> sourceline b < sourceline next_heading)
              (map snd (find_all ''pre'' soup)))"
    by (simp add: section_code_examples_def code_examples_loop_eq)
qed

theorem pre_blocks_of_section_witness:
  "section_walk 2 (next_siblings code_doc [0]) []
     = Inr ([''Run it:'', ''x = 1''], Some (Tag ''h2'' [] 4 [NavigableString ''Next'']))
   \<and> get_text_strip (Tag ''pre'' [] 3 [NavigableString ''x = 1'']) \<in> set [''Run it:'', ''x = 1'']
   \<and> section_code_examples code_doc (Tag ''h2'' [] 1 [NavigableString ''Usage''])
        (Some (Tag ''h2'' [] 4 [NavigableString ''Next''])) = [''x = 1'']"
proof -
  let ?taken = "[Tag ''p'' [] 2 [NavigableString ''Run it:'']]"
  let ?rest = "[Tag ''h2'' [] 4 [NavigableString ''Next'']]"
  have s: "next_siblings code_doc [0] = ?taken @ Tag ''pre'' [] 3 [NavigableString ''x = 1''] # ?rest"
    by code_simp
  have w: "section_walk 2 (next_siblings code_doc [0]) []
     = Inr ([''Run it:'', ''x = 1''], Some (Tag ''h2'' [] 4 [NavigableString ''Next'']))"
    by code_simp
  have t: "\<forall>n\<in>set ?taken. truthy n \<and> (looks_like_heading n \<longrightarrow>
         (\<exists>lv. name_level (the (node_name n)) = Inr lv \<and> 2 < lv))"
    by (simp add: looks_like_heading_def)
  note p = pre_blocks_of_section[of ?taken 2 "[]" 3 "[NavigableString ''x = 1'']" ?rest
      "[''Run it:'', ''x = 1'']" "Some (Tag ''h2'' [] 4 [NavigableString ''Next''])"
      code_doc "Tag ''h2'' [] 1 [NavigableString ''Usage'']"
      "Tag ''h2'' [] 4 [NavigableString ''Next'']"]
  from p[THEN conjunct1, THEN mp] t w[unfolded s]
  have 1: "get_text_strip (Tag ''pre'' [] 3 [NavigableString ''x = 1''])
             \<in> set [''Run it:'', ''x = 1'']" by blast
  have f: "map get_text
           (filter (\<lambda>b. sourceline (Tag ''h2'' [] 1 [NavigableString ''Usage'']) < sourceline b
                         \<and> sourceline b < sourceline (Tag ''h2'' [] 4 [NavigableString ''Next'']))
              (map snd (find_all ''pre'' code_doc))) = [''x = 1'']"
    by code_simp
  from p[THEN conjunct2] f
  have 2: "section_code_examples code_doc (Tag ''h2'' [] 1 [NavigableString ''Usage''])
        (Some (Tag ''h2'' [] 4 [NavigableString ''Next''])) = [''x = 1'']" by simp
  from w 1 2 show ?thesis by blast
qed

text \<open>
  A section with a paragraph and a code block: the text of the code block is in
  \<open>content\<close> as well as in \<open>code_examples\<close>.
\<close>

theorem pre_blocks_of_section_counterexample:
  "extract_section code_doc ''Usage'' ''u''
     = Inr (JObj [(''section'', JStr ''Usage''),
                  (''content'', JStr (''Run it:'' @ [CHR 0x0A] @ ''x = 1'')),
                  (''code_examples'', JArr [JStr ''x = 1'']),
                  (''page_url'', JStr ''u'')])"
  by code_simp

section \<open>The URL of a page\<close>

lemma get_section_requests:
  "page \<noteq> [] \<Longrightarrow> section \<noteq> [] \<Longrightarrow>
   requests (snd (get_section env st page section)) = requests st @ [page_url env page]"
  by (simp add: get_section_def client_get_def Let_def split: sum.splits option.splits)

lemma get_doc_requests:
  "page \<noteq> [] \<Longrightarrow>
   \<exists>more. requests (snd (get_doc env st page)) = requests st @ page_url env page # more"
  by (simp add: get_doc_def client_get_def Let_def split: sum.splits option.splits)

text \<open>
  Claim C10, as amended. \<open>get_section\<close> and \<open>get_doc\<close> first request the page's URL as
  \<open>page_url\<close> computes it. The page is resolved first: taken as it is when it starts
  with \<open>http\<close>, joined to the documentation root otherwise. The suffix \<open>.html\<close> is
  appended when the resolved URL does not end in \<open>.html\<close>, whatever the end of the page
  argument. So a full URL that does not end in \<open>.html\<close> is requested with \<open>.html\<close>
  appended, not as the caller gave it; a relative page is requested with \<open>.html\<close>
  appended to its resolved URL when that URL does not end in \<open>.html\<close>, and as resolved
  when it does.
\<close>

theorem html_suffix_on_resolved_url:
  assumes "page \<noteq> []" and "section \<noteq> []"
  shows "requests (snd (get_section env st page section))
           = requests st
             @ [if endswith (if startswith page ''http'' then page
                             else urljoin env DOCS_URL page) ''.html''
                then (if startswith page ''http'' then page else urljoin env DOCS_URL page)
                else (if startswith page ''http'' then page else urljoin env DOCS_URL page)
                     @ ''.html'']
       \<and> (\<exists>more. requests (snd (get_doc env st page))
              = requests st
                @ (if endswith (if startswith page ''http'' then page
                                else urljoin env DOCS_URL page) ''.html''
                   then (if startswith page ''http'' then page else urljoin env DOCS_URL page)
                   else (if startswith page ''http'' then page else urljoin env DOCS_URL page)
                        @ ''.html'') # more)
       \<and> (startswith page ''http'' \<and> \<not> endswith page ''.html'' \<longrightarrow>
            requests (snd (get_section env st page section)) = requests st @ [page @ ''.html'']
            \<and> (\<exists>more. requests (snd (get_doc env st page))
                  = requests st @ (page @ ''.html'') # more)
            \<and> page @ ''.html'' \<noteq> page)"
proof -
  have u: "page_url env page
      = (if endswith (if startswith page ''http'' then page
                      else urljoin env DOCS_URL page) ''.html''
         then (if startswith page ''http'' then page else urljoin env DOCS_URL page)
         else (if startswith page ''http'' then page else urljoin env DOCS_URL page)
              @ ''.html'')"
    by (simp add: page_url_def Let_def)
  from get_section_requests[OF assms(1,2), of env st] get_doc_requests[OF assms(1), of env st]
  show ?thesis unfolding u by auto
qed

theorem html_suffix_on_resolved_url_witness:
  "requests (snd (get_section serving_env initial_state DOCS_URL ''installation''))
     = [''https://openai.github.io/openai-agents-python/.html'']
   \<and> (\<exists>more. requests (snd (get_doc serving_env initial_state DOCS_URL))
         = ''https://openai.github.io/openai-agents-python/.html'' # more)
   \<and> requests (snd (get_section frag_env initial_state ''agents'' ''Agents''))
     = [''https://openai.github.io/openai-agents-python/agents.html'']"
proof -
  have 1: "DOCS_URL \<noteq> []" and 2: "''installation'' \<noteq> []"
    and 3: "''agents'' \<noteq> []" and 4: "''Agents'' \<noteq> []"
    by (simp_all add: DOCS_URL_def)
  have h: "startswith DOCS_URL ''http'' \<and> \<not> endswith DOCS_URL ''.html''" by code_simp
  have a: "requests initial_state
             @ [if endswith (if startswith ''agents'' ''http'' then ''agents''
                             else urljoin frag_env DOCS_URL ''agents'') ''.html''
                then (if startswith ''agents'' ''http'' then ''agents''
                      else urljoin frag_env DOCS_URL ''agents'')
                else (if startswith ''agents'' ''http'' then ''agents''
                      else urljoin frag_env DOCS_URL ''agents'')
                     @ ''.html'']
           = [''https://openai.github.io/openai-agents-python/agents.html'']"
    by code_simp
  have r: "requests initial_state = []" by (simp add: initial_state_def)
  note t = html_suffix_on_resolved_url[OF 1 2, of serving_env initial_state]
  from t[THEN conjunct2, THEN conjunct2, THEN mp, OF h] r
  have b: "requests (snd (get_section serving_env initial_state DOCS_URL ''installation''))
     = [''https://openai.github.io/openai-agents-python/.html'']
   \<and> (\<exists>more. requests (snd (get_doc serving_env initial_state DOCS_URL))
         = ''https://openai.github.io/openai-agents-python/.html'' # more)"
    by (simp add: DOCS_URL_def)
  from html_suffix_on_resolved_url[OF 3 4, of frag_env initial_state, THEN conjunct1] a
  have c: "requests (snd (get_section frag_env initial_state ''agents'' ''Agents''))
     = [''https://openai.github.io/openai-agents-python/agents.html'']"
    by simp
  from b c show ?thesis by blast
qed

text \<open>
  The page \<open>agents.html#\<close> does not end in \<open>.html\<close>, and the join with the
  documentation root drops the empty fragment: the request goes to the resolved URL,
  to which nothing was appended.
\<close>

theorem html_suffix_on_resolved_url_counterexample:
  "\<not> endswith ''agents.html#'' ''.html''
   \<and> requests (snd (get_section frag_env initial_state ''agents.html#'' ''Agents''))
     = [''https://openai.github.io/openai-agents-python/agents.html'']
   \<and> urljoin frag_env DOCS_URL ''agents.html#''
     = ''https://openai.github.io/openai-agents-python/agents.html''
   \<and> hd (requests (snd (get_doc frag_env initial_state ''agents.html#'')))
     = ''https://openai.github.io/openai-agents-python/agents.html''"
  by code_simp

section \<open>The depth limit of the crawl\<close>

lemma process_directory_depth_0:
  "max_depth \<le> 0 \<Longrightarrow> process_directory env dir_path max_depth acc = (max_depth_note, acc)"
  by (simp add: process_directory.simps)

lemma process_directory_depth_1:
  "process_directory env dir_path 1 (errors, st) =
     (case http_get env (length (requests st)) (GITHUB_URL @ ''/tree/main/'' @ dir_path) of
        Inl e \<Rightarrow> (directory_failed dir_path e, errors,
                   st\<lparr>requests := requests st @ [GITHUB_URL @ ''/tree/main/'' @ dir_path]\<rparr>)
      | Inr response \<Rightarrow>
          if status_code response = 404
          then (directory_not_found dir_path, errors,
                st\<lparr>requests := requests st @ [GITHUB_URL @ ''/tree/main/'' @ dir_path]\<rparr>)
          else (case status_error response of
                  Some e \<Rightarrow> (directory_failed dir_path e, errors,
                             st\<lparr>requests := requests st @ [GITHUB_URL @ ''/tree/main/'' @ dir_path]\<rparr>)
                | None \<Rightarrow>
                    (case dir_listing env dir_path (resp_text response) of
                       (files, dirs, item_errors) \<Rightarrow>
                         (structure_json (fst (structure_entries dir_path files dirs))
                            (snd (structure_entries dir_path files dirs)) dir_path,
                          errors @ item_errors,
                          st\<lparr>requests := requests st @ [GITHUB_URL @ ''/tree/main/'' @ dir_path]\<rparr>))))"
  by (simp add: process_directory.simps client_get_def split: sum.splits option.splits prod.splits)

lemma structure_entries_plain:
  "d \<in> set (snd (structure_entries dir_path files dirs)) \<Longrightarrow>
   \<exists>name path. d = JObj [(''name'', JStr name), (''path'', JStr path)]"
  by (auto simp: structure_entries_def dir_json_def split: if_splits)




section \<open>The results and the corpus of a search\<close>

subsection \<open>\<open>search_docs\<close>\<close>

lemma docs_links_loop_visited:
  "fst (docs_links_loop env terms links (results, st))
     = fold (\<lambda>(u, l, c) rs. docs_search_page u l c terms rs)
         (docs_links_visited env links st) results"
proof (induction links arbitrary: results st)
  case Nil
  then show ?case by simp
next
  case (Cons link links)
  let ?u = "urljoin env DOCS_URL link"
  obtain r st1 where f: "fetch_doc_page env st ?u = (r, st1)"
    by (cases "fetch_doc_page env st ?u")
  show ?case
  proof (cases r)
    case (Inl e)
    with f Cons.IH[of results st1] show ?thesis by simp
  next
    case (Inr c)
    with f Cons.IH[of "docs_search_page ?u link c terms results" st1] show ?thesis by simp
  qed
qed

lemma search_docs_results:
  assumes ne: "lower (strip query) \<noteq> []"
    and f: "fetch_doc_page env st DOCS_URL = (Inr content, st1)"
  shows "fst (search_docs env st query) =
     (let rs = fold (\<lambda>(u, l, c) rs. docs_search_page u l c (split_ws (lower (strip query))) rs)
                 (search_docs_corpus env st) []
      in if rs = []
         then Plain (''No results found for your query: '' @ q @ lower (strip query) @ q
                     @ ''. Try a different search term or check the documentation index.'')
         else Dumps (JArr rs))"
proof -
  let ?terms = "split_ws (lower (strip query))"
  let ?links = "take 20 (doc_links (parse_html env content))"
  let ?r0 = "docs_search_page DOCS_URL ''Main Page'' content ?terms []"
  obtain rs st2 where l: "docs_links_loop env ?terms ?links (?r0, st1) = (rs, st2)"
    by (cases "docs_links_loop env ?terms ?links (?r0, st1)")
  from docs_links_loop_visited[of env ?terms ?links ?r0 st1] l f
  have "rs = fold (\<lambda>(u, l, c) rs. docs_search_page u l c ?terms rs)
               (search_docs_corpus env st) []"
    by (simp add: search_docs_corpus_def)
  with search_docs_searched[OF ne f l] show ?thesis by (simp add: Let_def)
qed

lemma search_docs_corpus_failed:
  "fetch_doc_page env st DOCS_URL = (Inl e, st1) \<Longrightarrow> search_docs_corpus env st = []"
  by (simp add: search_docs_corpus_def)

lemma fold_docs_clean:
  "\<forall>(u, l, c)\<in>set corpus. \<forall>t\<in>set terms. \<not> str_in t (lower c) \<Longrightarrow>
   fold (\<lambda>(u, l, c) rs. docs_search_page u l c terms rs) corpus results = results"
proof (induction corpus)
  case Nil
  then show ?case by simp
next
  case (Cons d corpus)
  obtain u l c where d: "d = (u, l, c)" by (cases d)
  with Cons.prems have "\<forall>t\<in>set terms. \<not> str_in t (lower c)" by simp
  then have "docs_search_page u l c terms results = results"
    by (simp add: docs_search_page_def list_ex_iff)
  with Cons d show ?case by simp
qed

lemma length_fold_docs:
  "length (fold (\<lambda>(u, l, c) rs. docs_search_page u l c terms rs) corpus results)
     \<le> length results + length corpus"
proof (induction corpus arbitrary: results)
  case Nil
  then show ?case by simp
next
  case (Cons d corpus)
  obtain u l c where d: "d = (u, l, c)" by (cases d)
  from Cons.IH[of "docs_search_page u l c terms results"]
    length_docs_search_page[of u l c terms results] d
  show ?case by simp
qed

subsection \<open>\<open>search_github\<close>\<close>

lemma github_root_loop_visited:
  "github_root_visited env files st = (visited, st') \<Longrightarrow>
   \<exists>errs'. github_root_loop env terms files (results, errs, st)
     = (fold (\<lambda>(p, c) rs. github_search_file p c terms rs) visited results, errs', st')"
proof (induction files arbitrary: results errs st visited st')
  case Nil
  then show ?case by simp
next
  case (Cons fl files)
  show ?case
  proof (cases "entry_path fl = []")
    case True
    with Cons.prems Cons.IH[of st visited st' results errs] show ?thesis by simp
  next
    case False
    obtain r st1 where f: "fetch_github_file env st (entry_path fl) = (r, st1)"
      by (cases "fetch_github_file env st (entry_path fl)")
    show ?thesis
    proof (cases r)
      case (Inl e)
      with False f Cons.prems have "github_root_visited env files st1 = (visited, st')" by simp
      from Cons.IH[OF this, of results "errs @ [root_file_error fl e]"] False f Inl
      show ?thesis by simp
    next
      case (Inr c)
      obtain v st2 where v: "github_root_visited env files st1 = (v, st2)"
        by (cases "github_root_visited env files st1")
      with False f Inr Cons.prems have e: "visited = (entry_path fl, c) # v" "st' = st2"
        by simp_all
      from Cons.IH[OF v, of "github_search_file (entry_path fl) c terms results" errs]
        False f Inr e
      show ?thesis by simp
    qed
  qed
qed

lemma github_rows_loop_visited:
  "github_rows_visited env items st = (visited, st') \<Longrightarrow>
   \<exists>errs'. github_rows_loop env terms items (results, errs, st)
     = (fold (\<lambda>(p, c) rs. github_search_file p c terms rs) visited results, errs', st')"
proof (induction items arbitrary: results errs st visited st')
  case Nil
  then show ?case by simp
next
  case (Cons item items)
  show ?case
  proof (cases item)
    case None
    with Cons.prems Cons.IH[of st visited st' results errs] show ?thesis by simp
  next
    case (Some href)
    let ?p = "replace href blob_prefix []"
    show ?thesis
    proof (cases "is_text_file ?p")
      case False
      with Some Cons.prems Cons.IH[of st visited st' results errs] show ?thesis by simp
    next
      case True
      obtain r st1 where f: "fetch_github_file env st ?p = (r, st1)"
        by (cases "fetch_github_file env st ?p")
      show ?thesis
      proof (cases r)
        case (Inl e)
        with True Some f Cons.prems have "github_rows_visited env items st1 = (visited, st')"
          by simp
        from Cons.IH[OF this, of results "errs @ [file_error ?p e]"] True Some f Inl
        show ?thesis by simp
      next
        case (Inr c)
        obtain v st2 where v: "github_rows_visited env items st1 = (v, st2)"
          by (cases "github_rows_visited env items st1")
        with True Some f Inr Cons.prems have e: "visited = (?p, c) # v" "st' = st2"
          by simp_all
        from Cons.IH[OF v, of "github_search_file ?p c terms results" errs] True Some f Inr e
        show ?thesis by simp
      qed
    qed
  qed
qed

lemma github_search_directory_visited:
  assumes "github_directory_visited env dir_path st = (visited, st')"
  shows "\<exists>errs'. github_search_directory env terms dir_path (errs, st)
           = (fold (\<lambda>(p, c) rs. github_search_file p c terms rs) visited [], errs', st')"
proof -
  let ?u = "GITHUB_URL @ ''/tree/main/'' @ dir_path"
  obtain r st1 where c: "client_get env st ?u = (r, st1)" by (cases "client_get env st ?u")
  show ?thesis
  proof (cases r)
    case (Inl e)
    with c assms show ?thesis
      by (auto simp: github_search_directory_def github_directory_visited_def)
  next
    case (Inr response)
    show ?thesis
    proof (cases "status_code response = 404 \<or> status_error response \<noteq> None")
      case True
      with c Inr assms show ?thesis
        by (auto simp: github_search_directory_def github_directory_visited_def)
    next
      case False
      with c Inr assms
      have "github_rows_visited env (box_row_hrefs env (resp_text response)) st1 = (visited, st')"
        by (auto simp: github_directory_visited_def)
      from github_rows_loop_visited[OF this, of terms "[]" errs] c Inr False
      show ?thesis by (auto simp: github_search_directory_def)
    qed
  qed
qed

lemma fold_github_append:
  "fold (\<lambda>(p, c) rs. github_search_file p c terms rs) visited results
     = results @ fold (\<lambda>(p, c) rs. github_search_file p c terms rs) visited []"
proof (induction visited arbitrary: results rule: rev_induct)
  case Nil
  then show ?case by simp
next
  case (snoc d visited)
  obtain p c where d: "d = (p, c)" by (cases d)
  have a: "github_search_file p c terms (xs @ ys) = xs @ github_search_file p c terms ys"
    for xs ys
  proof -
    have "github_term_loop p c ts (xs @ ys) = xs @ github_term_loop p c ts ys" for ts
      by (induction ts) auto
    then show ?thesis by (simp add: github_search_file_def)
  qed
  from snoc[of results] d a show ?case by simp
qed

lemma github_gather_visited_eq:
  "github_gather_visited env dirs st = (visited, st') \<Longrightarrow>
   \<exists>errs'. github_gather env terms dirs (results, errs, st)
     = (fold (\<lambda>(p, c) rs. github_search_file p c terms rs) visited results, errs', st')"
proof (induction dirs arbitrary: results errs st visited st')
  case Nil
  then show ?case by simp
next
  case (Cons dir_name dirs)
  obtain v1 st1 where d: "github_directory_visited env dir_name st = (v1, st1)"
    by (cases "github_directory_visited env dir_name st")
  obtain v2 st2 where g: "github_gather_visited env dirs st1 = (v2, st2)"
    by (cases "github_gather_visited env dirs st1")
  from d g Cons.prems have e: "visited = v1 @ v2" "st' = st2" by simp_all
  from github_search_directory_visited[OF d, of terms errs] obtain errs1 where
    s: "github_search_directory env terms dir_name (errs, st)
          = (fold (\<lambda>(p, c) rs. github_search_file p c terms rs) v1 [], errs1, st1)"
    by blast
  from Cons.IH[OF g, of "results @ fold (\<lambda>(p, c) rs. github_search_file p c terms rs) v1 []"
      errs1]
  obtain errs' where "github_gather env terms dirs
       (results @ fold (\<lambda>(p, c) rs. github_search_file p c terms rs) v1 [], errs1, st1)
     = (fold (\<lambda>(p, c) rs. github_search_file p c terms rs) v2
          (results @ fold (\<lambda>(p, c) rs. github_search_file p c terms rs) v1 []), errs', st2)"
    by blast
  with s e fold_github_append[of terms v1 results] show ?case by simp
qed

lemma search_github_results:
  assumes ne: "lower (strip query) \<noteq> []"
  shows "\<exists>search_errors st'. search_github env st query =
     (let rs = fold (\<lambda>(p, c) rs. github_search_file p c (split_ws (lower (strip query))) rs)
                 (search_github_corpus env st) [];
          debug_info = github_debug_info (lower (strip query)) (split_ws (lower (strip query)))
                         search_errors
      in if rs = []
         then Dumps (JObj [(''error'',
                            JStr (''No results found in the GitHub repository for query: ''
                                  @ q @ lower (strip query) @ q
                                  @ ''. Try different search terms.'')),
                           (''debug_info'', debug_info)])
         else Dumps (JObj [(''results'', JArr rs), (''debug_info'', debug_info)]),
      st')"
proof -
  let ?terms = "split_ws (lower (strip query))"
  let ?step = "\<lambda>(p, c) rs. github_search_file p c ?terms rs"
  obtain structure0 st1 where g: "get_github_structure env st = (structure0, st1)"
    by (cases "get_github_structure env st")
  let ?files = "case gh_error structure0 of Some e \<Rightarrow> [] | None \<Rightarrow> gh_files structure0"
  let ?errs0 = "case gh_error structure0 of
                  Some e \<Rightarrow> [''Error getting repository structure: '' @ e] | None \<Rightarrow> []"
  obtain v1 st2 where r: "github_root_visited env ?files st1 = (v1, st2)"
    by (cases "github_root_visited env ?files st1")
  obtain v2 st3 where a: "github_gather_visited env github_key_dirs st2 = (v2, st3)"
    by (cases "github_gather_visited env github_key_dirs st2")
  from g r a have corpus: "search_github_corpus env st = v1 @ v2"
    by (simp add: search_github_corpus_def)
  from github_root_loop_visited[OF r, of ?terms "[]" ?errs0] obtain errs1 where
    r1: "github_root_loop env ?terms ?files ([], ?errs0, st1) = (fold ?step v1 [], errs1, st2)"
    by blast
  from github_gather_visited_eq[OF a, of ?terms "fold ?step v1 []" errs1] obtain errs where
    a1: "github_gather env ?terms github_key_dirs (fold ?step v1 [], errs1, st2)
           = (fold ?step v2 (fold ?step v1 []), errs, st3)"
    by blast
  have "search_github env st query =
     (let rs = fold ?step (v1 @ v2) [];
          debug_info = github_debug_info (lower (strip query)) ?terms errs
      in if rs = []
         then Dumps (JObj [(''error'',
                            JStr (''No results found in the GitHub repository for query: ''
                                  @ q @ lower (strip query) @ q
                                  @ ''. Try different search terms.'')),
                           (''debug_info'', debug_info)])
         else Dumps (JObj [(''results'', JArr rs), (''debug_info'', debug_info)]),
      st3)"
  proof (cases "gh_error structure0")
    case None
    with ne g r1 a1 show ?thesis by (simp add: search_github_def Let_def)
  next
    case (Some e)
    with ne g r1 a1 show ?thesis by (simp add: search_github_def Let_def)
  qed
  with corpus show ?thesis by auto
qed

lemma fold_github_clean:
  "\<forall>(p, c)\<in>set corpus. \<forall>t\<in>set terms. \<not> str_in t (lower c) \<Longrightarrow>
   fold (\<lambda>(p, c) rs. github_search_file p c terms rs) corpus results = results"
proof (induction corpus)
  case Nil
  then show ?case by simp
next
  case (Cons d corpus)
  obtain p c where d: "d = (p, c)" by (cases d)
  with Cons.prems have "\<forall>t\<in>set terms. \<not> str_in t (lower c)" by simp
  then have "github_search_file p c terms results = results"
    by (simp add: github_search_file_def list_ex_iff)
  with Cons d show ?case by simp
qed

subsection \<open>\<open>search_files\<close>\<close>

lemma files_rows_loop_eq:
  "\<exists>errs'. files_rows_loop filename_pattern dir_path items (matches, errs, subdirs)
     = (matches @ map (\<lambda>(n, p). file_match n p)
                    (filter (name_matches filename_pattern) (row_files dir_path items)),
        errs', subdirs @ row_subdirs dir_path items)"
proof (induction items arbitrary: matches errs subdirs)
  case Nil
  then show ?case by (simp add: row_files_def row_subdirs_def)
next
  case (Cons item items)
  have rf: "row_files dir_path (item # items) = row_files dir_path [item] @ row_files dir_path items"
    and rs: "row_subdirs dir_path (item # items)
               = row_subdirs dir_path [item] @ row_subdirs dir_path items"
    by (simp_all add: row_files_def row_subdirs_def)
  show ?case
  proof (cases "row_link_text item")
    case None
    with Cons.IH[of matches errs subdirs] show ?thesis
      unfolding rf rs by (simp add: row_files_def row_subdirs_def)
  next
    case (Some name)
    show ?thesis
    proof (cases "row_svg item")
      case None
      with Some Cons.IH[of matches "errs @ [item_error dir_path none_has_no_get]" subdirs]
      show ?thesis unfolding rf rs by (simp add: row_files_def row_subdirs_def)
    next
      case (Some label)
      show ?thesis
      proof (cases "row_is_dir label")
        case True
        with Some \<open>row_link_text item = Some name\<close>
          Cons.IH[of matches errs "subdirs @ [dir_path @ ''/'' @ name]"]
        show ?thesis unfolding rf rs by (simp add: row_files_def row_subdirs_def)
      next
        case False
        show ?thesis
        proof (cases "str_in filename_pattern (lower name)")
          case True
          with False Some \<open>row_link_text item = Some name\<close>
            Cons.IH[of "matches @ [file_match name (dir_path @ ''/'' @ name)]" errs subdirs]
          show ?thesis unfolding rf rs
            by (simp add: row_files_def row_subdirs_def name_matches_def)
        next
          case nm: False
          with False Some \<open>row_link_text item = Some name\<close> Cons.IH[of matches errs subdirs]
          show ?thesis unfolding rf rs
            by (simp add: row_files_def row_subdirs_def name_matches_def)
        qed
      qed
    qed
  qed
qed

lemma files_search_examined:
  "files_examined_directory env dir_path st = (examined, st') \<Longrightarrow>
   \<exists>errs'. files_search_directory env filename_pattern dir_path (matches, errs, st)
     = (matches @ map (\<lambda>(n, p). file_match n p)
                    (filter (name_matches filename_pattern) examined), errs', st')"
  "files_examined_subdirs env subdirs st = (examined, st') \<Longrightarrow>
   \<exists>errs'. files_search_subdirs env filename_pattern subdirs (matches, errs, st)
     = (matches @ map (\<lambda>(n, p). file_match n p)
                    (filter (name_matches filename_pattern) examined), errs', st')"
proof (induction env dir_path st and env subdirs st
       arbitrary: examined st' matches errs and examined st' matches errs
       rule: files_examined_directory_files_examined_subdirs.induct)
  case (1 env dir_path st)
  let ?u = "GITHUB_URL @ ''/tree/main/'' @ dir_path"
  obtain r st1 where c: "client_get env st ?u = (r, st1)" by (cases "client_get env st ?u")
  show ?case
  proof (cases r)
    case (Inl e)
    with c "1.prems" show ?thesis
      by (auto simp: files_search_directory.simps[of env filename_pattern dir_path]
            files_examined_directory.simps[of env dir_path])
  next
    case (Inr response)
    show ?thesis
    proof (cases "status_code response = 404 \<or> status_error response \<noteq> None")
      case True
      with c Inr "1.prems" show ?thesis
        by (auto simp: files_search_directory.simps[of env filename_pattern dir_path]
              files_examined_directory.simps[of env dir_path])
    next
      case False
      then have n: "status_code response \<noteq> 404" "status_error response = None" by simp_all
      let ?rows = "box_rows env (resp_text response)"
      obtain ex2 st2 where
        s: "files_examined_subdirs env (row_subdirs dir_path ?rows) st1 = (ex2, st2)"
        by (cases "files_examined_subdirs env (row_subdirs dir_path ?rows) st1")
      with c Inr n "1.prems" have e: "examined = row_files dir_path ?rows @ ex2" "st' = st2"
        by (simp_all add: files_examined_directory.simps[of env dir_path])
      from files_rows_loop_eq[of filename_pattern dir_path ?rows matches errs "[]"]
      obtain errs1 where
        l: "files_rows_loop filename_pattern dir_path ?rows (matches, errs, [])
              = (matches @ map (\<lambda>(n, p). file_match n p)
                             (filter (name_matches filename_pattern) (row_files dir_path ?rows)),
                 errs1, row_subdirs dir_path ?rows)"
        by auto
      from "1.IH"[OF c[symmetric] Inr n(1) n(2) s,
          of "matches @ map (\<lambda>(n, p). file_match n p)
                          (filter (name_matches filename_pattern) (row_files dir_path ?rows))"
             errs1]
      obtain errs' where "files_search_subdirs env filename_pattern (row_subdirs dir_path ?rows)
           (matches @ map (\<lambda>(n, p). file_match n p)
                        (filter (name_matches filename_pattern) (row_files dir_path ?rows)),
            errs1, st1)
         = ((matches @ map (\<lambda>(n, p). file_match n p)
                         (filter (name_matches filename_pattern) (row_files dir_path ?rows)))
            @ map (\<lambda>(n, p). file_match n p) (filter (name_matches filename_pattern) ex2),
            errs', st2)"
        by blast
      with c Inr n l e show ?thesis
        by (simp add: files_search_directory.simps[of env filename_pattern dir_path])
    qed
  qed
next
  case (2 env st)
  then show ?case by simp
next
  case (3 env subdir subdirs st)
  show ?case
  proof (cases "length (split_on CHR ''/'' subdir) \<le> 3")
    case False
    with "3.prems" have "files_examined_subdirs env subdirs st = (examined, st')" by simp
    from "3.IH"(3)[OF False this, of matches errs] False show ?thesis by simp
  next
    case True
    obtain ex1 st1 where d: "files_examined_directory env subdir st = (ex1, st1)"
      by (cases "files_examined_directory env subdir st")
    obtain ex2 st2 where s: "files_examined_subdirs env subdirs st1 = (ex2, st2)"
      by (cases "files_examined_subdirs env subdirs st1")
    from True d s "3.prems" have e: "examined = ex1 @ ex2" "st' = st2" by simp_all
    from "3.IH"(1)[OF True d, of matches errs] obtain errs1 where
      a: "files_search_directory env filename_pattern subdir (matches, errs, st)
            = (matches @ map (\<lambda>(n, p). file_match n p)
                           (filter (name_matches filename_pattern) ex1), errs1, st1)"
      by blast
    from "3.IH"(2)[OF True d[symmetric] s,
        of "matches @ map (\<lambda>(n, p). file_match n p) (filter (name_matches filename_pattern) ex1)"
           errs1]
    obtain errs' where "files_search_subdirs env filename_pattern subdirs
         (matches @ map (\<lambda>(n, p). file_match n p) (filter (name_matches filename_pattern) ex1),
          errs1, st1)
       = ((matches @ map (\<lambda>(n, p). file_match n p)
                       (filter (name_matches filename_pattern) ex1))
          @ map (\<lambda>(n, p). file_match n p) (filter (name_matches filename_pattern) ex2),
          errs', st2)"
      by blast
    with True a e show ?thesis by simp
  qed
qed

lemma files_search_all_examined:
  "files_examined_all env dirs st = (examined, st') \<Longrightarrow>
   \<exists>errs'. files_search_all env filename_pattern dirs (matches, errs, st)
     = (matches @ map (\<lambda>(n, p). file_match n p)
                    (filter (name_matches filename_pattern) examined), errs', st')"
proof (induction dirs arbitrary: matches errs st examined st')
  case Nil
  then show ?case by simp
next
  case (Cons directory dirs)
  obtain ex1 st1 where d: "files_examined_directory env directory st = (ex1, st1)"
    by (cases "files_examined_directory env directory st")
  obtain ex2 st2 where s: "files_examined_all env dirs st1 = (ex2, st2)"
    by (cases "files_examined_all env dirs st1")
  from d s Cons.prems have e: "examined = ex1 @ ex2" "st' = st2" by simp_all
  from files_search_examined(1)[OF d, of filename_pattern matches errs] obtain errs1 where
    a: "files_search_directory env filename_pattern directory (matches, errs, st)
          = (matches @ map (\<lambda>(n, p). file_match n p)
                         (filter (name_matches filename_pattern) ex1), errs1, st1)"
    by blast
  from Cons.IH[OF s, of "matches @ map (\<lambda>(n, p). file_match n p)
                                    (filter (name_matches filename_pattern) ex1)" errs1]
  obtain errs' where "files_search_all env filename_pattern dirs
         (matches @ map (\<lambda>(n, p). file_match n p) (filter (name_matches filename_pattern) ex1),
          errs1, st1)
       = ((matches @ map (\<lambda>(n, p). file_match n p)
                       (filter (name_matches filename_pattern) ex1))
          @ map (\<lambda>(n, p). file_match n p) (filter (name_matches filename_pattern) ex2),
          errs', st2)"
    by blast
  with a e show ?case by simp
qed

lemma root_matches_eq:
  "root_matches filename_pattern files
     = map (\<lambda>f. file_match (lower (entry_name f)) (entry_path f))
         (filter (\<lambda>f. name_matches filename_pattern (entry_name f, entry_path f)) files)"
  by (simp add: root_matches_def name_matches_def)

lemma search_files_no_match_corpus:
  assumes ne: "lower (strip filename_pattern0) \<noteq> []"
    and clean: "\<forall>(n, p)\<in>set (search_files_corpus env st (lower (strip filename_pattern0))).
                  \<not> str_in (lower (strip filename_pattern0)) (lower n)"
  shows "\<exists>search_errors st'. search_files env st filename_pattern0 =
           (Dumps (JObj [(''error'',
                          JStr (no_files_message (lower (strip filename_pattern0)) search_errors)),
                         (''debug_info'',
                          files_debug_info (lower (strip filename_pattern0)) search_errors)]),
            st')"
proof -
  let ?p = "lower (strip filename_pattern0)"
  obtain structure0 st1 where g: "get_github_structure env st = (structure0, st1)"
    by (cases "get_github_structure env st")
  let ?errs0 = "case gh_error structure0 of
                  Some e \<Rightarrow> [''Error getting repository structure: '' @ e] | None \<Rightarrow> []"
  let ?files = "case gh_error structure0 of Some e \<Rightarrow> [] | None \<Rightarrow> gh_files structure0"
  let ?root = "map (\<lambda>f. (entry_name f, entry_path f)) ?files"
  obtain ex1 st2 where a: "files_examined_all env files_key_dirs st1 = (ex1, st2)"
    by (cases "files_examined_all env files_key_dirs st1")
  obtain ex2 st3 where b: "files_examined_all env direct_paths st2 = (ex2, st3)"
    by (cases "files_examined_all env direct_paths st2")
  have sub: "set (?root @ ex1) \<subseteq> set (search_files_corpus env st ?p)"
    using g a by (auto simp: search_files_corpus_def Let_def)
  with clean have c1: "filter (name_matches ?p) (?root @ ex1) = []"
    by (auto simp: filter_empty_conv name_matches_def)
  with g a b have corpus: "search_files_corpus env st ?p = ?root @ ex1 @ ex2"
    by (simp add: search_files_corpus_def Let_def)
  with clean have c2: "filter (name_matches ?p) ex2 = []"
    by (auto simp: filter_empty_conv name_matches_def)
  from c1 have r0: "root_matches ?p ?files = []"
    by (auto simp: root_matches_def filter_empty_conv name_matches_def)
  from c1 have c1': "filter (name_matches ?p) ex1 = []" by simp
  from files_search_all_examined[OF a, of ?p "root_matches ?p ?files" ?errs0] r0 c1'
  obtain errs1 where
    s1: "files_search_all env ?p files_key_dirs (root_matches ?p ?files, ?errs0, st1)
           = ([], errs1, st2)" by auto
  from files_search_all_examined[OF b, of ?p "[]" errs1] c2
  obtain errs2 where
    s2: "files_search_all env ?p direct_paths ([], errs1, st2) = ([], errs2, st3)" by auto
  from ne g s1 s2 have "search_files env st filename_pattern0 =
           (Dumps (JObj [(''error'', JStr (no_files_message ?p errs2)),
                         (''debug_info'', files_debug_info ?p errs2)]),
            st3)"
    by (simp add: search_files_def Let_def)
  then show ?thesis by blast
qed

section \<open>One result for each visit of a document\<close>




section \<open>Searches that find nothing\<close>

text \<open>
  Claim C5, as amended. For a query that is not empty, when no document of the corpus
  of the call contains a query term: \<open>search_github\<close> and \<open>search_files\<close> return a JSON
  object with an error message and the debug information, whose \<open>directories_searched\<close>
  is the tool's fixed list of key directories; \<open>search_docs\<close> returns a plain message
  which lists no page, the one that nothing was found when the main page was fetched
  and the one that the search failed when it was not. The corpus of a call is what the
  call examines: for \<open>search_docs\<close> the text of the main page and of each linked page
  that it fetches, for \<open>search_github\<close> the content of each file that it fetches, for
  \<open>search_files\<close> the names of the files of the listings that it reads. No tool raises:
  each reply is a value.
\<close>

theorem no_match_replies:
  assumes "lower (strip query) \<noteq> []"
  shows "((\<forall>(u, l, c)\<in>set (search_docs_corpus env st).
             \<forall>t\<in>set (split_ws (lower (strip query))). \<not> str_in t (lower c)) \<longrightarrow>
          fst (search_docs env st query) =
            (case fst (fetch_doc_page env st DOCS_URL) of
               Inr content \<Rightarrow>
                 Plain (''No results found for your query: '' @ q @ lower (strip query) @ q
                        @ ''. Try a different search term or check the documentation index.'')
             | Inl e \<Rightarrow> Plain (''Error searching documentation: '' @ str_exn e)))
       \<and> ((\<forall>(p, c)\<in>set (search_github_corpus env st).
             \<forall>t\<in>set (split_ws (lower (strip query))). \<not> str_in t (lower c)) \<longrightarrow>
          (\<exists>search_errors st'. search_github env st query =
             (Dumps (JObj [(''error'',
                            JStr (''No results found in the GitHub repository for query: ''
                                  @ q @ lower (strip query) @ q
                                  @ ''. Try different search terms.'')),
                           (''debug_info'',
                            JObj [(''search_query'', JStr (lower (strip query))),
                                  (''search_terms'',
                                   JArr (map JStr (split_ws (lower (strip query))))),
                                  (''directories_searched'', JArr (map JStr github_key_dirs)),
                                  (''errors'', if search_errors = [] then JNull
                                              else JArr (map JStr search_errors))])]),
              st')))
       \<and> ((\<forall>(n, p)\<in>set (search_files_corpus env st (lower (strip query))).
             \<not> str_in (lower (strip query)) (lower n)) \<longrightarrow>
          (\<exists>search_errors st'. search_files env st query =
             (Dumps (JObj [(''error'',
                            JStr (no_files_message (lower (strip query)) search_errors)),
                           (''debug_info'',
                            JObj [(''search_pattern'', JStr (lower (strip query))),
                                  (''directories_searched'', JArr (map JStr files_key_dirs)),
                                  (''errors'', if search_errors = [] then JNull
                                              else JArr (map JStr search_errors))])]),
              st')))"
proof (intro conjI impI)
  assume a: "\<forall>(u, l, c)\<in>set (search_docs_corpus env st).
             \<forall>t\<in>set (split_ws (lower (strip query))). \<not> str_in t (lower c)"
  obtain r st1 where f: "fetch_doc_page env st DOCS_URL = (r, st1)"
    by (cases "fetch_doc_page env st DOCS_URL")
  show "fst (search_docs env st query) =
            (case fst (fetch_doc_page env st DOCS_URL) of
               Inr content \<Rightarrow>
                 Plain (''No results found for your query: '' @ q @ lower (strip query) @ q
                        @ ''. Try a different search term or check the documentation index.'')
             | Inl e \<Rightarrow> Plain (''Error searching documentation: '' @ str_exn e))"
  proof (cases r)
    case (Inl e)
    with search_docs_fetch_failed[OF assms, of env st e st1] f show ?thesis by simp
  next
    case (Inr content)
    from search_docs_results[OF assms f[unfolded Inr]] fold_docs_clean[OF a, of "[]"] f Inr
    show ?thesis by (simp add: Let_def)
  qed
next
  assume a: "\<forall>(p, c)\<in>set (search_github_corpus env st).
             \<forall>t\<in>set (split_ws (lower (strip query))). \<not> str_in t (lower c)"
  from search_github_results[OF assms, of env st] fold_github_clean[OF a, of "[]"]
  show "\<exists>search_errors st'. search_github env st query =
             (Dumps (JObj [(''error'',
                            JStr (''No results found in the GitHub repository for query: ''
                                  @ q @ lower (strip query) @ q
                                  @ ''. Try different search terms.'')),
                           (''debug_info'',
                            JObj [(''search_query'', JStr (lower (strip query))),
                                  (''search_terms'',
                                   JArr (map JStr (split_ws (lower (strip query))))),
                                  (''directories_searched'', JArr (map JStr github_key_dirs)),
                                  (''errors'', if search_errors = [] then JNull
                                              else JArr (map JStr search_errors))])]),
              st')"
    by (simp add: Let_def github_debug_info_def)
next
  assume a: "\<forall>(n, p)\<in>set (search_files_corpus env st (lower (strip query))).
             \<not> str_in (lower (strip query)) (lower n)"
  from search_files_no_match_corpus[OF assms a]
  show "\<exists>search_errors st'. search_files env st query =
             (Dumps (JObj [(''error'',
                            JStr (no_files_message (lower (strip query)) search_errors)),
                           (''debug_info'',
                            JObj [(''search_pattern'', JStr (lower (strip query))),
                                  (''directories_searched'', JArr (map JStr files_key_dirs)),
                                  (''errors'', if search_errors = [] then JNull
                                              else JArr (map JStr search_errors))])]),
              st')"
    by (simp add: files_debug_info_def)
qed

text \<open>
  The example repository: the corpus of each of the three searches is not empty, and no
  document of it mentions \<open>zebra\<close>.
\<close>

theorem no_match_replies_witness:
  "map (\<lambda>(u, l, c). (l, c)) (search_docs_corpus repo_env initial_state)
     = [(''Main Page'', ''Welcome to the SDK'')]
   \<and> fst (search_docs repo_env initial_state ''Zebra'')
     = Plain (''No results found for your query: '' @ q @ ''zebra'' @ q
              @ ''. Try a different search term or check the documentation index.'')
   \<and> length (search_github_corpus repo_env initial_state) = 7
   \<and> (\<exists>search_errors st'. search_github repo_env initial_state ''Zebra'' =
         (Dumps (JObj [(''error'',
                        JStr (''No results found in the GitHub repository for query: ''
                              @ q @ ''zebra'' @ q @ ''. Try different search terms.'')),
                       (''debug_info'',
                        JObj [(''search_query'', JStr ''zebra''),
                              (''search_terms'', JArr [JStr ''zebra'']),
                              (''directories_searched'', JArr (map JStr github_key_dirs)),
                              (''errors'', if search_errors = [] then JNull
                                          else JArr (map JStr search_errors))])]),
          st'))
   \<and> (''demo.py'', ''examples/demo.py'') \<in> set (search_files_corpus repo_env initial_state ''zebra'')
   \<and> (\<exists>search_errors st'. search_files repo_env initial_state ''Zebra'' =
         (Dumps (JObj [(''error'', JStr (no_files_message ''zebra'' search_errors)),
                       (''debug_info'',
                        JObj [(''search_pattern'', JStr ''zebra''),
                              (''directories_searched'', JArr (map JStr files_key_dirs)),
                              (''errors'', if search_errors = [] then JNull
                                          else JArr (map JStr search_errors))])]),
          st'))"
proof -
  have ne: "lower (strip ''Zebra'') \<noteq> []" by code_simp
  have l: "lower (strip ''Zebra'') = ''zebra''" by code_simp
  have ts: "split_ws ''zebra'' = [''zebra'']" by code_simp
  have c1: "map (\<lambda>(u, l, c). (l, c)) (search_docs_corpus repo_env initial_state)
              = [(''Main Page'', ''Welcome to the SDK'')]" by code_simp
  have c2: "length (search_github_corpus repo_env initial_state) = 7" by code_simp
  have c3: "(''demo.py'', ''examples/demo.py'')
              \<in> set (search_files_corpus repo_env initial_state ''zebra'')" by code_simp
  have d: "\<forall>(u, l, c)\<in>set (search_docs_corpus repo_env initial_state).
             \<forall>t\<in>set (split_ws (lower (strip ''Zebra''))). \<not> str_in t (lower c)"
    by code_simp
  have g: "\<forall>(p, c)\<in>set (search_github_corpus repo_env initial_state).
             \<forall>t\<in>set (split_ws (lower (strip ''Zebra''))). \<not> str_in t (lower c)"
    by code_simp
  have f: "\<forall>(n, p)\<in>set (search_files_corpus repo_env initial_state (lower (strip ''Zebra''))).
             \<not> str_in (lower (strip ''Zebra'')) (lower n)"
    by code_simp
  have m: "(case fst (fetch_doc_page repo_env initial_state DOCS_URL) of
               Inr content \<Rightarrow>
                 Plain (''No results found for your query: '' @ q @ lower (strip ''Zebra'') @ q
                        @ ''. Try a different search term or check the documentation index.'')
             | Inl e \<Rightarrow> Plain (''Error searching documentation: '' @ str_exn e))
           = Plain (''No results found for your query: '' @ q @ ''zebra'' @ q
              @ ''. Try a different search term or check the documentation index.'')"
    by code_simp
  note t = no_match_replies[OF ne, of repo_env initial_state]
  from t[THEN conjunct1, THEN mp, OF d] m
  have 1: "fst (search_docs repo_env initial_state ''Zebra'')
     = Plain (''No results found for your query: '' @ q @ ''zebra'' @ q
              @ ''. Try a different search term or check the documentation index.'')"
    by simp
  from c1 1 c2 t[THEN conjunct2, THEN conjunct1, THEN mp, OF g, unfolded l ts]
    c3 t[THEN conjunct2, THEN conjunct2, THEN mp, OF f, unfolded l]
  show ?thesis by simp
qed

text \<open>
  On a site whose only page does not mention the query, \<open>search_docs\<close> answers with
  the plain sentence: not a JSON payload, and no page is listed in it.
\<close>

theorem no_match_replies_counterexample:
  "fst (search_docs serving_env initial_state ''Zebra'')
     = Plain (''No results found for your query: '' @ q @ ''zebra'' @ q
              @ ''. Try a different search term or check the documentation index.'')"
  by code_simp

end
